theory Spec2Isabelle
  imports Complex_Main "HOL-Library.Sublist"
begin

section \<open>Tables\<close>

text \<open>
  A pandas cell is a number, a string or a missing value. Numbers are exact rationals here:
  the rounding of Python floats is not modelled. \<open>NA\<close> stands for both \<open>NaN\<close> (an empty
  CSV cell) and \<open>pd.NA\<close>. Cells carry no column dtype.

  A DataFrame is its column labels and its rows, each row a list of cells aligned with the
  labels. Row labels are the positions \<open>0, 1, ...\<close>, as \<open>read_csv\<close> makes them.
\<close>

datatype cell = Num rat | Str string | NA

record table =
  columns :: "string list"
  rows :: "cell list list"

text \<open>A row as \<open>iterrows\<close> yields it: the column labels paired with the row's values.\<close>

type_synonym series = "(string \<times> cell) list"

definition iterrows :: "table \<Rightarrow> series list" where
  "iterrows df = map (\<lambda>r. zip (columns df) r) (rows df)"

definition wf_table :: "table \<Rightarrow> bool" where
  "wf_table df \<longleftrightarrow>
     distinct (columns df) \<and> list_all (\<lambda>r. length r = length (columns df)) (rows df)"

definition index_of :: "'a \<Rightarrow> 'a list \<Rightarrow> nat" where
  "index_of x xs = length (takeWhile (\<lambda>y. y \<noteq> x) xs)"

section \<open>Row matcher\<close>

text \<open>
  \<open>str.lower\<close>. Strings are byte strings here: the ASCII letters are lowered, any other
  byte is left as it is (Python also lowers the letters beyond ASCII).
\<close>

definition lower_char :: "char \<Rightarrow> char" where
  "lower_char c =
     (let n = (of_char c :: nat) in if 65 \<le> n \<and> n \<le> 90 then char_of (n + 32) else c)"

definition lower :: "string \<Rightarrow> string" where
  "lower s = map lower_char s"

text \<open>\<open>os.path.basename\<close> (POSIX): what follows the last slash.\<close>

definition basename :: "string \<Rightarrow> string" where
  "basename p = rev (takeWhile (\<lambda>c. c \<noteq> CHR ''/'') (rev p))"

definition endswith :: "string \<Rightarrow> string \<Rightarrow> bool" where
  "endswith s suf = suffix suf s"

text \<open>
  \<open>extract_class_name\<close> on a string: the base name, without a final \<open>.java\<close>
  (\<open>base_name[:-5]\<close>).
\<close>

definition class_name_of :: "string \<Rightarrow> string" where
  "class_name_of filepath =
     (let base_name = basename filepath in
      if endswith base_name ''.java'' then take (length base_name - 5) base_name
      else base_name)"

text \<open>
  \<open>extract_class_name\<close> on a cell. \<open>os.path.basename\<close> raises \<open>TypeError\<close> on a value
  that is not a string (a number, or the \<open>NaN\<close> of an empty CSV cell): the result \<open>None\<close>.
\<close>

definition extract_class_name :: "cell \<Rightarrow> string option" where
  "extract_class_name filepath =
     (case filepath of
        Str p \<Rightarrow> Some (class_name_of p)
      | Num _ \<Rightarrow> None
      | NA \<Rightarrow> None)"

text \<open>Python's \<open>==\<close> on two cells: \<open>NaN\<close> equals nothing, itself included.\<close>

fun py_eq :: "cell \<Rightarrow> cell \<Rightarrow> bool" where
  "py_eq (Num a) (Num b) = (a = b)"
| "py_eq (Str s) (Str t) = (s = t)"
| "py_eq _ _ = False"

text \<open>
  \<open>match_files\<close>. \<open>'ClassNames' in row1\<close> asks for the label, \<open>row1['ClassNames']\<close> reads
  the value. The two \<open>if\<close> statements follow each other: when the class names differ,
  control reaches the file-name comparison. \<open>None\<close> is the exception of
  \<open>extract_class_name\<close>.
\<close>

definition match_files :: "series \<Rightarrow> series \<Rightarrow> bool option" where
  "match_files row1 row2 =
     (if (case (map_of row1 ''ClassNames'', map_of row2 ''class'') of
            (Some a, Some b) \<Rightarrow> py_eq a b
          | _ \<Rightarrow> False)
      then Some True
      else
        (case (map_of row1 ''Name'', map_of row2 ''file'') of
           (Some n, Some f) \<Rightarrow>
             (case extract_class_name n of
                None \<Rightarrow> None
              | Some base_file \<Rightarrow>
                  (case extract_class_name f of
                     None \<Rightarrow> None
                   | Some override_file \<Rightarrow>
                       Some (lower base_file = lower override_file)))
         | _ \<Rightarrow> Some False))"

section \<open>Merge engine\<close>

text \<open>\<open>result_df[col] = pd.NA\<close> for a label that is not a column yet.\<close>

definition add_na_column :: "table \<Rightarrow> string \<Rightarrow> table" where
  "add_na_column df col =
     df\<lparr>columns := columns df @ [col], rows := map (\<lambda>r. r @ [NA]) (rows df)\<rparr>"

text \<open>The loop over \<open>add_columns\<close>; it runs on a list that is neither \<open>None\<close> nor empty.\<close>

definition add_requested_columns :: "table \<Rightarrow> string list option \<Rightarrow> table \<Rightarrow> table" where
  "add_requested_columns override_df add_columns result_df =
     (case add_columns of
        None \<Rightarrow> result_df
      | Some cs \<Rightarrow>
          foldl (\<lambda>res col.
                   if col \<in> set (columns override_df) \<and> col \<notin> set (columns res)
                   then add_na_column res col else res)
            result_df cs)"

text \<open>
  \<open>result_df.at[i, col] = v\<close>. pandas raises when the dtype of the column cannot hold
  the value; which values a dtype holds, and whether a value it cannot hold raises or widens
  the column, differs between pandas versions. The tables here carry no dtypes, so that rule
  is a parameter, \<open>accepts\<close>: it is asked with the frame, the position and the value, and
  the write it refuses is the exception \<open>None\<close>.

  On a label that is no column pandas enlarges the frame first. The row label \<open>i\<close> comes
  from \<open>base_df\<close>, of which \<open>result_df\<close> is a copy, so it is always a row of the frame.
\<close>

type_synonym dtype_rule = "table \<Rightarrow> nat \<Rightarrow> string \<Rightarrow> cell \<Rightarrow> bool"

definition set_at :: "dtype_rule \<Rightarrow> table \<Rightarrow> nat \<Rightarrow> string \<Rightarrow> cell \<Rightarrow> table option" where
  "set_at accepts df i col v =
     (if accepts df i col v
      then (let df' = (if col \<in> set (columns df) then df else add_na_column df col) in
            Some (df'\<lparr>rows := (rows df')[i := (rows df' ! i)[index_of col (columns df') := v]]\<rparr>))
      else None)"

text \<open>
  The column an override column is written to, if any: the column itself when it was
  requested in \<open>add_columns\<close>, else the first base column equal to it up to case.
\<close>

definition target_col :: "table \<Rightarrow> string list option \<Rightarrow> string \<Rightarrow> string option" where
  "target_col base_df add_columns col =
     (if (case add_columns of None \<Rightarrow> False | Some cs \<Rightarrow> col \<in> set cs) then Some col
      else (case filter (\<lambda>c. lower c = lower col) (columns base_df) of
              [] \<Rightarrow> None
            | c # _ \<Rightarrow> Some c))"

text \<open>
  The loop over the override columns for one matched pair of rows: \<open>override_row\<close> holds
  each override column with the row's value for it. A refused write ends the loop with the
  exception.
\<close>

fun override_values ::
  "dtype_rule \<Rightarrow> table \<Rightarrow> string list option \<Rightarrow> nat \<Rightarrow> series \<Rightarrow> table \<Rightarrow> table option" where
  "override_values accepts base_df add_columns i [] result = Some result"
| "override_values accepts base_df add_columns i ((col, v) # rest) result =
     (case target_col base_df add_columns col of
        None \<Rightarrow> override_values accepts base_df add_columns i rest result
      | Some t \<Rightarrow>
          (case set_at accepts result i t v of
             None \<Rightarrow> None
           | Some result' \<Rightarrow> override_values accepts base_df add_columns i rest result'))"

record merge_state =
  result_df :: table
  used_override_rows :: "nat set"

text \<open>The inner loop: the override rows in order, left at the first match (\<open>break\<close>).\<close>

fun scan_overrides ::
  "dtype_rule \<Rightarrow> table \<Rightarrow> string list option \<Rightarrow> nat \<Rightarrow> series \<Rightarrow> (nat \<times> series) list \<Rightarrow>
   merge_state \<Rightarrow> merge_state option" where
  "scan_overrides accepts base_df add_columns i base_row [] st = Some st"
| "scan_overrides accepts base_df add_columns i base_row ((j, override_row) # rest) st =
     (case match_files base_row override_row of
        None \<Rightarrow> None
      | Some True \<Rightarrow>
          (case override_values accepts base_df add_columns i override_row (result_df st) of
             None \<Rightarrow> None
           | Some result \<Rightarrow>
               Some (st\<lparr>result_df := result,
                        used_override_rows := insert j (used_override_rows st)\<rparr>))
      | Some False \<Rightarrow> scan_overrides accepts base_df add_columns i base_row rest st)"

text \<open>The outer loop over the base rows.\<close>

fun merge_loop ::
  "dtype_rule \<Rightarrow> table \<Rightarrow> table \<Rightarrow> string list option \<Rightarrow> (nat \<times> series) list \<Rightarrow>
   merge_state \<Rightarrow> merge_state option" where
  "merge_loop accepts base_df override_df add_columns [] st = Some st"
| "merge_loop accepts base_df override_df add_columns ((i, base_row) # rest) st =
     (case scan_overrides accepts base_df add_columns i base_row
             (enumerate 0 (iterrows override_df)) st of
        None \<Rightarrow> None
      | Some st' \<Rightarrow> merge_loop accepts base_df override_df add_columns rest st')"

definition merge_run ::
  "dtype_rule \<Rightarrow> table \<Rightarrow> table \<Rightarrow> string list option \<Rightarrow> merge_state option" where
  "merge_run accepts base_df override_df add_columns =
     merge_loop accepts base_df override_df add_columns (enumerate 0 (iterrows base_df))
       \<lparr>result_df = add_requested_columns override_df add_columns base_df,
        used_override_rows = {}\<rparr>"

text \<open>\<open>merge_csvs\<close> returns the result frame; \<open>None\<close> is an exception leaving it.\<close>

definition merge_csvs ::
  "dtype_rule \<Rightarrow> table \<Rightarrow> table \<Rightarrow> string list option \<Rightarrow> table option" where
  "merge_csvs accepts base_df override_df add_columns =
     map_option result_df (merge_run accepts base_df override_df add_columns)"

text \<open>The override rows reported as never matched.\<close>

definition unused_rows :: "table \<Rightarrow> merge_state \<Rightarrow> nat set" where
  "unused_rows override_df st = {0..<length (rows override_df)} - used_override_rows st"

section \<open>The merge, row by row\<close>

text \<open>
  What the two loops of \<open>merge_csvs\<close> do to one base row when every write is accepted,
  as functions of that row. They are compared with the loops below (\<open>merge_csvs_Some\<close>).

  The labels the first loop appends, in the order of \<open>add_columns\<close>.
\<close>

definition new_columns :: "table \<Rightarrow> table \<Rightarrow> string list option \<Rightarrow> string list" where
  "new_columns base_df override_df add_columns =
     (case add_columns of
        None \<Rightarrow> []
      | Some cs \<Rightarrow>
          foldl (\<lambda>new col.
                   if col \<in> set (columns override_df) \<and> col \<notin> set (columns base_df) \<and> col \<notin> set new
                   then new @ [col] else new)
            [] cs)"

text \<open>A frame with new columns, empty in every row.\<close>

definition with_new_columns :: "table \<Rightarrow> string list \<Rightarrow> table" where
  "with_new_columns df new =
     df\<lparr>columns := columns df @ new, rows := map (\<lambda>r. r @ replicate (length new) NA) (rows df)\<rparr>"

text \<open>The values of an override row written into the cells of one result row.\<close>

definition write_row ::
  "string list \<Rightarrow> table \<Rightarrow> string list option \<Rightarrow> series \<Rightarrow> cell list \<Rightarrow> cell list" where
  "write_row cols base_df add_columns override_row cells =
     foldl (\<lambda>cs (col, v).
              case target_col base_df add_columns col of
                None \<Rightarrow> cs
              | Some t \<Rightarrow> cs[index_of t cols := v])
       cells override_row"

text \<open>
  The first override row the matcher accepts, with its position: \<open>Some None\<close> when no row
  matches, \<open>None\<close> when a comparison raises before a match is found.
\<close>

fun first_match :: "series \<Rightarrow> (nat \<times> series) list \<Rightarrow> (nat \<times> series) option option" where
  "first_match base_row [] = Some None"
| "first_match base_row ((j, override_row) # rest) =
     (case match_files base_row override_row of
        None \<Rightarrow> None
      | Some True \<Rightarrow> Some (Some (j, override_row))
      | Some False \<Rightarrow> first_match base_row rest)"

text \<open>
  The result row of a base row: the row with an empty cell for each new column, and with the
  values of its first matching override row written in.
\<close>

definition merged_row :: "table \<Rightarrow> table \<Rightarrow> string list option \<Rightarrow> cell list \<Rightarrow> cell list option" where
  "merged_row base_df override_df add_columns r =
     (let new = new_columns base_df override_df add_columns;
          extended = r @ replicate (length new) NA
      in case first_match (zip (columns base_df) r) (enumerate 0 (iterrows override_df)) of
           None \<Rightarrow> None
         | Some None \<Rightarrow> Some extended
         | Some (Some (j, override_row)) \<Rightarrow>
             Some (write_row (columns base_df @ new) base_df add_columns override_row extended))"

section \<open>Formula substitution\<close>

text \<open>The six metrics and their formulas, in the order of the dictionary.\<close>

definition QMOOD_METRICS :: "string list" where
  "QMOOD_METRICS =
     [''Reusability'', ''Flexibility'', ''Understandability'',
      ''Functionality'', ''Extendibility'', ''Effectiveness'']"

definition QMOOD_FORMULAS :: "(string \<times> string) list" where
  "QMOOD_FORMULAS =
     [(''Reusability'', ''-0.25 * DCC + 0.25 * lcc + 0.5 * CIS + 0.5 * DSC''),
      (''Flexibility'', ''0.25 * DAM - 0.25 * DCC + 0.5 * MOA + 0.5 * NOP''),
      (''Understandability'',
         ''-0.33 * ANA + 0.33 * DAM - 0.33 * DCC + 0.33 * lcc - 0.33 * NOP - 0.33 * WMC + - 0.33 * DSC''),
      (''Functionality'', ''0.12 * lcc + 0.22 * NOP + 0.22 * CIS + 0.22 * DSC + 0.22 * NOH''),
      (''Extendibility'', ''0.5 * ANA - 0.5 * DCC + 0.5 * MFA + 0.5 * NOP''),
      (''Effectiveness'', ''0.2 * ANA + 0.2 * DAM + 0.2 * MOA + 0.2 * MFA + 0.2 * NOP'')]"

text \<open>
  The regular expression \<open>\b\<close> + \<open>re.escape(col)\<close> + \<open>\b\<close>. \<open>\w\<close> is a letter, a digit
  or an underscore (ASCII). \<open>\b\<close> holds where exactly one of the characters before and
  after the position is a word character; the start and the end of the string count as a
  character that is none.
\<close>

definition is_digit :: "char \<Rightarrow> bool" where
  "is_digit c = (let n = (of_char c :: nat) in 48 \<le> n \<and> n \<le> 57)"

definition is_word_char :: "char \<Rightarrow> bool" where
  "is_word_char c =
     (let n = (of_char c :: nat) in
      (48 \<le> n \<and> n \<le> 57) \<or> (65 \<le> n \<and> n \<le> 90) \<or> (97 \<le> n \<and> n \<le> 122) \<or> n = 95)"

definition is_word :: "char option \<Rightarrow> bool" where
  "is_word c = (case c of None \<Rightarrow> False | Some x \<Rightarrow> is_word_char x)"

definition word_boundary :: "char option \<Rightarrow> char option \<Rightarrow> bool" where
  "word_boundary left right \<longleftrightarrow> is_word left \<noteq> is_word right"

definition first_char :: "string \<Rightarrow> char option" where
  "first_char s = (case s of [] \<Rightarrow> None | c # _ \<Rightarrow> Some c)"

text \<open>
  The pattern matches at a position, \<open>prev\<close> being the character before it and \<open>s\<close> the
  text from it on: a boundary, the literal text \<open>col\<close>, a boundary.
\<close>

definition matches_here :: "string \<Rightarrow> char option \<Rightarrow> string \<Rightarrow> bool" where
  "matches_here col prev s \<longleftrightarrow>
     word_boundary prev (first_char s) \<and> prefix col s \<and>
     word_boundary (if col = [] then prev else Some (last col)) (first_char (drop (length col) s))"

text \<open>
  \<open>re.sub\<close>: the text is read from left to right; where the pattern matches, the
  replacement is written and the search goes on after the match; elsewhere the character
  is copied. An empty match is followed by the copy of one character.
\<close>

function re_sub_from :: "string \<Rightarrow> string \<Rightarrow> char option \<Rightarrow> string \<Rightarrow> string" where
  "re_sub_from col repl prev s =
     (if col \<noteq> [] \<and> matches_here col prev s
      then repl @ re_sub_from col repl (Some (last col)) (drop (length col) s)
      else (if col = [] \<and> matches_here col prev s then repl else []) @
           (case s of
              [] \<Rightarrow> []
            | c # cs \<Rightarrow> c # re_sub_from col repl (Some c) cs))"
  by pat_completeness auto
termination
  by (relation "measure (\<lambda>(col, repl, prev, s). length s)")
     (auto simp: matches_here_def prefix_def)

definition quote :: char where
  "quote = CHR 0x27"

text \<open>The replacement \<open>f"df['{col}']"\<close>.\<close>

definition df_ref :: "string \<Rightarrow> string" where
  "df_ref col = ''df['' @ [quote] @ col @ [quote] @ '']''"

definition re_sub :: "string \<Rightarrow> string \<Rightarrow> string" where
  "re_sub col expr = re_sub_from col (df_ref col) None expr"

text \<open>
  The loop over \<open>df.columns\<close>: each column whose name occurs in the expression as it stands
  (\<open>col in expr\<close>) is substituted in it. The replacement is a template to \<open>re.sub\<close>, in
  which a backslash would be an escape; a name that occurs in the expression has none, since
  the formulas have none (\<open>substitute_columns_chars\<close> below).
\<close>

definition substitute_columns :: "string list \<Rightarrow> string \<Rightarrow> string" where
  "substitute_columns cols formula =
     foldl (\<lambda>expr col. if sublist col expr then re_sub col expr else expr) formula cols"

section \<open>Evaluation of the substituted expression\<close>

text \<open>
  \<open>eval(expr)\<close> is modelled on the expressions the substitution makes of the formulas:
  numbers, names, string keys in brackets, the signs and the operators \<open>+ - *\<close>. The text is
  split into tokens, the tokens are parsed, the tree is evaluated. Any other text, and any
  step that raises in Python, gives \<open>None\<close>: the \<open>except Exception\<close> of the caller
  catches every such exception alike.
\<close>

datatype token =
  TNum rat | TName string | TStr string | TPlus | TMinus | TStar | TLBracket | TRBracket

definition digit_val :: "char \<Rightarrow> nat" where
  "digit_val c = of_char c - 48"

definition nat_of_digits :: "string \<Rightarrow> nat" where
  "nat_of_digits ds = foldl (\<lambda>n d. 10 * n + digit_val d) 0 ds"

text \<open>The value of the literal \<open>ip.fp\<close>.\<close>

definition decimal :: "string \<Rightarrow> string \<Rightarrow> rat" where
  "decimal ip fp = of_nat (nat_of_digits ip) + of_nat (nat_of_digits fp) / 10 ^ length fp"

definition is_name_start :: "char \<Rightarrow> bool" where
  "is_name_start c \<longleftrightarrow> is_word_char c \<and> \<not> is_digit c"

function lex :: "string \<Rightarrow> token list option" where
  "lex [] = Some []"
| "lex (c # cs) =
     (if c = CHR '' '' then lex cs
      else if is_digit c then
        (let ip = c # takeWhile is_digit cs; r = dropWhile is_digit cs in
         case r of
           d # r' \<Rightarrow>
             if d = CHR ''.''
             then map_option (Cons (TNum (decimal ip (takeWhile is_digit r'))))
                    (lex (dropWhile is_digit r'))
             else map_option (Cons (TNum (decimal ip []))) (lex r)
         | [] \<Rightarrow> Some [TNum (decimal ip [])])
      else if c = CHR ''.'' then
        (if takeWhile is_digit cs = [] then None
         else map_option (Cons (TNum (decimal [] (takeWhile is_digit cs))))
                (lex (dropWhile is_digit cs)))
      else if is_name_start c then
        map_option (Cons (TName (c # takeWhile is_word_char cs))) (lex (dropWhile is_word_char cs))
      else if c = quote then
        (case dropWhile (\<lambda>x. x \<noteq> quote) cs of
           [] \<Rightarrow> None
         | q # r \<Rightarrow> map_option (Cons (TStr (takeWhile (\<lambda>x. x \<noteq> quote) cs))) (lex r))
      else if c = CHR ''+'' then map_option (Cons TPlus) (lex cs)
      else if c = CHR ''-'' then map_option (Cons TMinus) (lex cs)
      else if c = CHR ''*'' then
        (case cs of
           [] \<Rightarrow> Some [TStar]
         | d # _ \<Rightarrow> if d = CHR ''*'' then None else map_option (Cons TStar) (lex cs))
      else if c = CHR ''['' then map_option (Cons TLBracket) (lex cs)
      else if c = CHR '']'' then map_option (Cons TRBracket) (lex cs)
      else None)"
  by pat_completeness auto
termination
proof (relation "measure length")
  show "wf (measure length)" by simp
next
  fix c :: char and cs x xa x21 x22
  assume "xa = dropWhile is_digit cs" "xa = x21 # x22"
  then have "length (x21 # x22) \<le> length cs"
    by (metis length_dropWhile_le)
  moreover have "length (dropWhile is_digit x22) \<le> length x22"
    by (rule length_dropWhile_le)
  ultimately show "(dropWhile is_digit x22, c # cs) \<in> measure length" by simp
next
  fix c :: char and cs x xa x21 x22
  assume "xa = dropWhile is_digit cs" "xa = x21 # x22"
  then have "length (x21 # x22) \<le> length cs"
    by (metis length_dropWhile_le)
  then show "(xa, c # cs) \<in> measure length" using \<open>xa = x21 # x22\<close> by simp
next
  fix c :: char and cs x21 x22
  assume "dropWhile (\<lambda>x. x \<noteq> quote) cs = x21 # x22"
  then have "length (x21 # x22) \<le> length cs"
    by (metis length_dropWhile_le)
  then show "(x22, c # cs) \<in> measure length" by simp
qed (auto simp: le_imp_less_Suc length_dropWhile_le)

text \<open>
  The syntax tree. A subscript holds one string key: the brackets the substitution writes
  hold nothing else.
\<close>

datatype ast =
  ANum rat
| AName string
| AStr string
| ASubscript ast string
| ANeg ast
| APos ast
| AAdd ast ast
| ASub ast ast
| AMul ast ast

text \<open>
  The parser reads the tokens once. Its state: the operand just read, if an operator may
  follow (\<open>operand\<close>); the signs waiting for the next operand, the outermost first
  (\<open>signs\<close>, \<open>True\<close> for a minus); the product to the left of a pending \<open>*\<close>
  (\<open>product\<close>); the sum to the left of a pending \<open>+\<close> or \<open>-\<close>, with \<open>True\<close> for a minus
  (\<open>total\<close>). A sign binds its operand closer than \<open>*\<close>, and \<open>*\<close> closer than \<open>+\<close> and
  \<open>-\<close>; operators of one level associate to the left.
\<close>

record parser_state =
  total :: "(ast \<times> bool) option"
  product :: "ast option"
  signs :: "bool list"
  operand :: "ast option"

definition apply_signs :: "bool list \<Rightarrow> ast \<Rightarrow> ast" where
  "apply_signs sg a = foldr (\<lambda>negative x. if negative then ANeg x else APos x) sg a"

definition close_factor :: "parser_state \<Rightarrow> ast \<Rightarrow> ast" where
  "close_factor st a =
     (let f = apply_signs (signs st) a in
      case product st of None \<Rightarrow> f | Some p \<Rightarrow> AMul p f)"

definition close_term :: "parser_state \<Rightarrow> ast \<Rightarrow> ast" where
  "close_term st a =
     (let t = close_factor st a in
      case total st of
        None \<Rightarrow> t
      | Some (l, negative) \<Rightarrow> if negative then ASub l t else AAdd l t)"

fun parse_tokens :: "parser_state \<Rightarrow> token list \<Rightarrow> ast option" where
  "parse_tokens st [] =
     (case operand st of None \<Rightarrow> None | Some a \<Rightarrow> Some (close_term st a))"
| "parse_tokens st (TLBracket # TStr k # TRBracket # ts) =
     (case operand st of
        None \<Rightarrow> None
      | Some a \<Rightarrow> parse_tokens (st\<lparr>operand := Some (ASubscript a k)\<rparr>) ts)"
| "parse_tokens st (TLBracket # ts) = None"
| "parse_tokens st (TRBracket # ts) = None"
| "parse_tokens st (TNum x # ts) =
     (case operand st of
        None \<Rightarrow> parse_tokens (st\<lparr>operand := Some (ANum x)\<rparr>) ts
      | Some a \<Rightarrow> None)"
| "parse_tokens st (TName n # ts) =
     (case operand st of
        None \<Rightarrow> parse_tokens (st\<lparr>operand := Some (AName n)\<rparr>) ts
      | Some a \<Rightarrow> None)"
| "parse_tokens st (TStr s # ts) =
     (case operand st of
        None \<Rightarrow> parse_tokens (st\<lparr>operand := Some (AStr s)\<rparr>) ts
      | Some a \<Rightarrow> None)"
| "parse_tokens st (TStar # ts) =
     (case operand st of
        None \<Rightarrow> None
      | Some a \<Rightarrow>
          parse_tokens (st\<lparr>product := Some (close_factor st a), signs := [], operand := None\<rparr>) ts)"
| "parse_tokens st (TPlus # ts) =
     (case operand st of
        None \<Rightarrow> parse_tokens (st\<lparr>signs := signs st @ [False]\<rparr>) ts
      | Some a \<Rightarrow>
          parse_tokens (st\<lparr>total := Some (close_term st a, False), product := None,
                           signs := [], operand := None\<rparr>) ts)"
| "parse_tokens st (TMinus # ts) =
     (case operand st of
        None \<Rightarrow> parse_tokens (st\<lparr>signs := signs st @ [True]\<rparr>) ts
      | Some a \<Rightarrow>
          parse_tokens (st\<lparr>total := Some (close_term st a, True), product := None,
                           signs := [], operand := None\<rparr>) ts)"

definition parse :: "string \<Rightarrow> ast option" where
  "parse expr =
     (case lex expr of
        None \<Rightarrow> None
      | Some ts \<Rightarrow> parse_tokens \<lparr>total = None, product = None, signs = [], operand = None\<rparr> ts)"

text \<open>
  Values: the frame \<open>df\<close>, a column of it, a number, a string. Arithmetic is the pandas
  arithmetic of numeric cells: a missing cell gives a missing cell; an operation that meets
  a string raises, as a product of a float and a string does.
\<close>

datatype pyval = Frame | Column "cell list" | Number rat | Text string

fun cell_neg :: "cell \<Rightarrow> cell option" where
  "cell_neg (Num x) = Some (Num (- x))"
| "cell_neg NA = Some NA"
| "cell_neg (Str s) = None"

fun cell_pos :: "cell \<Rightarrow> cell option" where
  "cell_pos (Num x) = Some (Num x)"
| "cell_pos NA = Some NA"
| "cell_pos (Str s) = None"

fun cell_op :: "(rat \<Rightarrow> rat \<Rightarrow> rat) \<Rightarrow> cell \<Rightarrow> cell \<Rightarrow> cell option" where
  "cell_op f (Num x) (Num y) = Some (Num (f x y))"
| "cell_op f (Str s) c = None"
| "cell_op f c (Str s) = None"
| "cell_op f NA c = Some NA"
| "cell_op f c NA = Some NA"

fun unary :: "(cell \<Rightarrow> cell option) \<Rightarrow> pyval \<Rightarrow> pyval option" where
  "unary g (Column xs) = map_option Column (those (map g xs))"
| "unary g (Number x) = (case g (Num x) of Some (Num y) \<Rightarrow> Some (Number y) | _ \<Rightarrow> None)"
| "unary g Frame = None"
| "unary g (Text s) = None"

fun binary :: "(rat \<Rightarrow> rat \<Rightarrow> rat) \<Rightarrow> pyval \<Rightarrow> pyval \<Rightarrow> pyval option" where
  "binary f (Number x) (Number y) = Some (Number (f x y))"
| "binary f (Number x) (Column ys) = map_option Column (those (map (cell_op f (Num x)) ys))"
| "binary f (Column xs) (Number y) = map_option Column (those (map (\<lambda>c. cell_op f c (Num y)) xs))"
| "binary f (Column xs) (Column ys) =
     map_option Column (those (map (\<lambda>(x, y). cell_op f x y) (zip xs ys)))"
| "binary f Frame v = None"
| "binary f v Frame = None"
| "binary f (Text s) v = None"
| "binary f v (Text s) = None"

text \<open>\<open>df[col]\<close>: the values of a column, \<open>KeyError\<close> on a label that is no column.\<close>

definition column :: "table \<Rightarrow> string \<Rightarrow> cell list" where
  "column df col = map (\<lambda>r. r ! index_of col (columns df)) (rows df)"

text \<open>
  Evaluation. Of the names in scope where \<open>eval\<close> runs, the expressions use \<open>df\<close> alone;
  the column names of the formulas are not defined there (\<open>NameError\<close>). A column is
  indexed by row labels, so a string key on it raises.
\<close>

fun eval_ast :: "table \<Rightarrow> ast \<Rightarrow> pyval option" where
  "eval_ast df (ANum x) = Some (Number x)"
| "eval_ast df (AName n) = (if n = ''df'' then Some Frame else None)"
| "eval_ast df (AStr s) = Some (Text s)"
| "eval_ast df (ASubscript a k) =
     (case eval_ast df a of
        Some Frame \<Rightarrow> if k \<in> set (columns df) then Some (Column (column df k)) else None
      | _ \<Rightarrow> None)"
| "eval_ast df (ANeg a) = (case eval_ast df a of None \<Rightarrow> None | Some v \<Rightarrow> unary cell_neg v)"
| "eval_ast df (APos a) = (case eval_ast df a of None \<Rightarrow> None | Some v \<Rightarrow> unary cell_pos v)"
| "eval_ast df (AAdd a b) =
     (case eval_ast df a of
        None \<Rightarrow> None
      | Some v \<Rightarrow> (case eval_ast df b of None \<Rightarrow> None | Some w \<Rightarrow> binary (+) v w))"
| "eval_ast df (ASub a b) =
     (case eval_ast df a of
        None \<Rightarrow> None
      | Some v \<Rightarrow> (case eval_ast df b of None \<Rightarrow> None | Some w \<Rightarrow> binary (-) v w))"
| "eval_ast df (AMul a b) =
     (case eval_ast df a of
        None \<Rightarrow> None
      | Some v \<Rightarrow> (case eval_ast df b of None \<Rightarrow> None | Some w \<Rightarrow> binary (*) v w))"

definition py_eval :: "table \<Rightarrow> string \<Rightarrow> pyval option" where
  "py_eval df expr = (case parse expr of None \<Rightarrow> None | Some a \<Rightarrow> eval_ast df a)"

section \<open>Metric recalculator\<close>

text \<open>
  \<open>result_df[metric] = values\<close>: an existing column is overwritten in place, a new one is
  appended.
\<close>

definition set_column :: "table \<Rightarrow> string \<Rightarrow> cell list \<Rightarrow> table" where
  "set_column df col vals =
     (if col \<in> set (columns df)
      then df\<lparr>rows := map (\<lambda>(r, v). r[index_of col (columns df) := v]) (zip (rows df) vals)\<rparr>
      else df\<lparr>columns := columns df @ [col],
              rows := map (\<lambda>(r, v). r @ [v]) (zip (rows df) vals)\<rparr>)"

text \<open>
  The body of the \<open>try\<close>, up to the values assigned: the substituted formula is evaluated;
  a column is assigned as it is, a single number or string to every row. \<open>None\<close> is an
  exception.
\<close>

definition eval_formula :: "table \<Rightarrow> string \<Rightarrow> cell list option" where
  "eval_formula df formula =
     (case py_eval df (substitute_columns (columns df) formula) of
        None \<Rightarrow> None
      | Some Frame \<Rightarrow> None
      | Some (Column vs) \<Rightarrow> Some vs
      | Some (Number x) \<Rightarrow> Some (replicate (length (rows df)) (Num x))
      | Some (Text s) \<Rightarrow> Some (replicate (length (rows df)) (Str s)))"

text \<open>One round of the loop over the metrics: \<open>try\<close> and \<open>except\<close>.\<close>

definition recalculate_metric :: "table \<Rightarrow> table \<Rightarrow> string \<times> string \<Rightarrow> table" where
  "recalculate_metric df result mf =
     (case mf of (metric, formula) \<Rightarrow>
        (case eval_formula df formula of
           Some vals \<Rightarrow> set_column result metric vals
         | None \<Rightarrow>
             if metric \<in> set (columns result) then result
             else set_column result metric (replicate (length (rows result)) (Num 0))))"

definition recalculate_qmood_metrics :: "table \<Rightarrow> table" where
  "recalculate_qmood_metrics df = foldl (recalculate_metric df) df QMOOD_FORMULAS"

section \<open>Notions used in the statements and proofs\<close>

text \<open>
  The values one round of the loop leaves in a metric's column, as a function of the input
  table alone: the evaluated formula, or on failure the column as it was, or zeros.
\<close>

definition metric_values :: "table \<Rightarrow> string \<times> string \<Rightarrow> cell list" where
  "metric_values df mf =
     (case mf of (metric, formula) \<Rightarrow>
        (case eval_formula df formula of
           Some vals \<Rightarrow> vals
         | None \<Rightarrow>
             if metric \<in> set (columns df) then column df metric
             else replicate (length (rows df)) (Num 0)))"

text \<open>Numeric columns and the number in a cell.\<close>

definition num_of :: "cell \<Rightarrow> rat" where
  "num_of c = (case c of Num x \<Rightarrow> x | Str s \<Rightarrow> 0 | NA \<Rightarrow> 0)"

definition num_at :: "table \<Rightarrow> nat \<Rightarrow> string \<Rightarrow> rat" where
  "num_at df i col = num_of (rows df ! i ! index_of col (columns df))"

definition numeric_column :: "table \<Rightarrow> string \<Rightarrow> bool" where
  "numeric_column df col \<longleftrightarrow>
     col \<in> set (columns df) \<and>
     list_all (\<lambda>r. case r ! index_of col (columns df) of Num x \<Rightarrow> True | Str s \<Rightarrow> False | NA \<Rightarrow> False)
       (rows df)"

text \<open>
  The Understandability formula with its seven column names replaced by references.
\<close>

definition understandability_expr :: string where
  "understandability_expr =
     ''-0.33 * df['ANA'] + 0.33 * df['DAM'] - 0.33 * df['DCC'] + 0.33 * df['lcc'] - 0.33 * df['NOP'] - 0.33 * df['WMC'] + - 0.33 * df['DSC']''"

text \<open>The column labels a syntax tree, a parser state and a token list mention.\<close>

fun keys :: "ast \<Rightarrow> string set" where
  "keys (ANum x) = {}"
| "keys (AName n) = {}"
| "keys (AStr s) = {}"
| "keys (ASubscript a k) = insert k (keys a)"
| "keys (ANeg a) = keys a"
| "keys (APos a) = keys a"
| "keys (AAdd a b) = keys a \<union> keys b"
| "keys (ASub a b) = keys a \<union> keys b"
| "keys (AMul a b) = keys a \<union> keys b"

definition state_keys :: "parser_state \<Rightarrow> string set" where
  "state_keys st =
     (case total st of None \<Rightarrow> {} | Some (a, s) \<Rightarrow> keys a) \<union>
     (case product st of None \<Rightarrow> {} | Some a \<Rightarrow> keys a) \<union>
     (case operand st of None \<Rightarrow> {} | Some a \<Rightarrow> keys a)"

definition token_keys :: "token list \<Rightarrow> string set" where
  "token_keys ts = {s. TStr s \<in> set ts}"

text \<open>The characters of a reference \<open>df['...']\<close> besides those of the column name.\<close>

definition reference_chars :: "char set" where
  "reference_chars = set ''df[]'' \<union> {quote}"





section \<open>Example tables\<close>

text \<open>
  The dtype rule that refuses no write. The merges of the tables below write whole numbers
  into columns of whole numbers and into columns the merge has added, which no dtype refuses.
\<close>

definition any_value :: dtype_rule where
  "any_value df i col v = True"

definition base0 :: table where
  "base0 = \<lparr>columns = [''Name'', ''DCC'', ''lcc'', ''CIS'', ''DSC''],
            rows = [[Str ''src/Foo.java'', Num 2, Num 1, Num 3, Num 1],
                    [Str ''src/Bar.java'', Num 4, Num 0, Num 1, Num 1]]\<rparr>"

definition override0 :: table where
  "override0 = \<lparr>columns = [''file'', ''dcc'', ''NewMetric''],
                rows = [[Str ''foo.java'', Num 5, Num 7]]\<rparr>"

definition base1 :: table where
  "base1 = \<lparr>columns = [''Name'', ''DCC''],
            rows = [[Str ''src/Foo.java'', Num 2],
                    [Str ''lib/foo.java'', Num 3],
                    [Str ''src/Baz.java'', Num 9]]\<rparr>"

definition override1 :: table where
  "override1 = \<lparr>columns = [''file'', ''dcc'', ''NewMetric''],
                rows = [[Str ''Bar.java'', Num 1, Num 10],
                        [Str ''foo.java'', Num 5, Num 11],
                        [Str ''FOO.java'', Num 6, Num 12]]\<rparr>"

definition override2 :: table where
  "override2 = \<lparr>columns = [''file'', ''dcc'', ''NewMetric''],
                rows = [[Str ''Qux.java'', Num 1, Num 10]]\<rparr>"

definition metrics1 :: table where
  "metrics1 =
     \<lparr>columns = [''Name'', ''DCC'', ''lcc'', ''CIS'', ''DSC'', ''DAM'', ''MOA'', ''MOA2'',
                 ''NOP'', ''ANA'', ''WMC'', ''NOH'', ''MFA''],
      rows = [[Str ''Foo.java'', Num 5, Num 1, Num 3, Num 1, Num 1, Num 2, Num 100,
               Num 1, Num 1, Num 4, Num 2, Num 1],
              [Str ''Bar.java'', Num 1, Num 1, Num 1, Num 1, Num 0, Num 1, Num 100,
               Num 2, Num 0, Num 3, Num 1, Num 1]]\<rparr>"

definition metrics2 :: table where
  "metrics2 =
     \<lparr>columns = [''Name'', ''DCC'', ''lcc'', ''CIS'', ''DSC'', ''Flexibility''],
      rows = [[Str ''Foo.java'', Num 5, Num 1, Num 3, Num 1, Num 7],
              [Str ''Bar.java'', Num 1, Num 1, Num 1, Num 1, Num 8]]\<rparr>"

definition metrics3 :: table where
  "metrics3 =
     \<lparr>columns = [''ANA'', ''DAM'', ''DCC'', ''lcc'', ''NOP'', ''WMC'', ''DSC'', ''33''],
      rows = [[Num 1, Num 1, Num 1, Num 1, Num 1, Num 1, Num 1, Num 1]]\<rparr>"

section \<open>Properties of the merge\<close>

lemma columns_with_new_columns [simp]: "columns (with_new_columns df new) = columns df @ new"
  by (simp add: with_new_columns_def)

lemma rows_with_new_columns [simp]:
  "rows (with_new_columns df new) = map (\<lambda>r. r @ replicate (length new) NA) (rows df)"
  by (simp add: with_new_columns_def)

lemma with_new_columns_Nil [simp]: "with_new_columns df [] = df"
  by (simp add: with_new_columns_def)

lemma add_na_column_with_new:
  "add_na_column (with_new_columns df new) c = with_new_columns df (new @ [c])"
  by (simp add: add_na_column_def with_new_columns_def replicate_append_same)

lemma add_fold_aux:
  "foldl (\<lambda>res col. if col \<in> set ocs \<and> col \<notin> set (columns res) then add_na_column res col else res)
      (with_new_columns b new) cs
   = with_new_columns b
       (foldl (\<lambda>new col. if col \<in> set ocs \<and> col \<notin> set (columns b) \<and> col \<notin> set new
                           then new @ [col] else new) new cs)"
proof (induction cs arbitrary: new)
  case Nil
  show ?case by simp
next
  case (Cons c cs)
  show ?case
  proof (cases "c \<in> set ocs \<and> c \<notin> set (columns b) \<and> c \<notin> set new")
    case True
    then show ?thesis
      using Cons.IH [of "new @ [c]"] by (simp add: add_na_column_with_new)
  next
    case False
    then show ?thesis
      using Cons.IH [of new] by auto
  qed
qed

lemma add_requested_columns_eq:
  "add_requested_columns override_df add_columns base_df =
     with_new_columns base_df (new_columns base_df override_df add_columns)"
proof (cases add_columns)
  case None
  then show ?thesis
    by (simp add: add_requested_columns_def new_columns_def)
next
  case (Some cs)
  then show ?thesis
    using add_fold_aux [of "columns override_df" base_df "[]" cs]
    by (simp add: add_requested_columns_def new_columns_def)
qed

lemma set_at_Some:
  "set_at accepts df i t v = Some df' \<Longrightarrow> t \<in> set (columns df) \<Longrightarrow>
   df' = df\<lparr>rows := (rows df)[i := (rows df ! i)[index_of t (columns df) := v]]\<rparr>"
  by (auto simp: set_at_def split: if_splits)

lemma override_values_rows:
  assumes "override_values accepts base_df add_columns i override_row df = Some df'"
    and "\<And>col v t. (col, v) \<in> set override_row \<Longrightarrow> target_col base_df add_columns col = Some t
             \<Longrightarrow> t \<in> set (columns df)"
  shows "df' = df\<lparr>rows := (rows df)[i := write_row (columns df) base_df add_columns override_row
                                          (rows df ! i)]\<rparr>"
  using assms
proof (induction override_row arbitrary: df)
  case Nil
  then show ?case by (simp add: write_row_def)
next
  case (Cons p ps)
  obtain col v where p: "p = (col, v)" by (cases p)
  show ?case
  proof (cases "target_col base_df add_columns col")
    case None
    have run: "override_values accepts base_df add_columns i ps df = Some df'"
      using Cons.prems(1) None p by simp
    have w: "write_row (columns df) base_df add_columns (p # ps) (rows df ! i)
        = write_row (columns df) base_df add_columns ps (rows df ! i)"
      using None p by (simp add: write_row_def)
    have "df' = df\<lparr>rows := (rows df)[i := write_row (columns df) base_df add_columns ps
                                          (rows df ! i)]\<rparr>"
      by (rule Cons.IH [OF run]) (use Cons.prems(2) in auto)
    then show ?thesis by (simp add: w)
  next
    case (Some t)
    have tin: "t \<in> set (columns df)"
      using Cons.prems(2) [of col v t] Some p by simp
    from Cons.prems(1) Some p obtain df1 where
      s: "set_at accepts df i t v = Some df1"
      and run: "override_values accepts base_df add_columns i ps df1 = Some df'"
      by (auto split: option.splits)
    have df1: "df1 = df\<lparr>rows := (rows df)[i := (rows df ! i)[index_of t (columns df) := v]]\<rparr>"
      using set_at_Some [OF s tin] .
    have cols: "columns df1 = columns df" by (simp add: df1)
    have w: "write_row (columns df) base_df add_columns (p # ps) (rows df ! i)
        = write_row (columns df) base_df add_columns ps ((rows df ! i)[index_of t (columns df) := v])"
      using Some p by (simp add: write_row_def)
    have ih: "df' = df1\<lparr>rows := (rows df1)[i := write_row (columns df1) base_df add_columns ps
                                            (rows df1 ! i)]\<rparr>"
      by (rule Cons.IH [OF run]) (use Cons.prems(2) cols in auto)
    show ?thesis
      unfolding ih w
      by (cases "i < length (rows df)") (simp_all add: df1 list_update_beyond)
  qed
qed

lemma new_columns_fold_mono:
  "set new \<subseteq> set (foldl (\<lambda>new col. if col \<in> set ocs \<and> col \<notin> set bcs \<and> col \<notin> set new
                           then new @ [col] else new) new cs)"
proof (induction cs arbitrary: new)
  case Nil
  show ?case by simp
next
  case (Cons a cs)
  let ?new' = "if a \<in> set ocs \<and> a \<notin> set bcs \<and> a \<notin> set new then new @ [a] else new"
  have "set new \<subseteq> set ?new'" by auto
  also have "\<dots> \<subseteq> set (foldl (\<lambda>new col. if col \<in> set ocs \<and> col \<notin> set bcs \<and> col \<notin> set new
                           then new @ [col] else new) ?new' cs)"
    by (rule Cons.IH)
  finally show ?case by simp
qed

lemma new_columns_fold_mem:
  "c \<in> set cs \<Longrightarrow> c \<in> set ocs \<Longrightarrow> c \<notin> set bcs \<Longrightarrow>
   c \<in> set (foldl (\<lambda>new col. if col \<in> set ocs \<and> col \<notin> set bcs \<and> col \<notin> set new
                           then new @ [col] else new) new cs)"
proof (induction cs arbitrary: new)
  case Nil
  then show ?case by simp
next
  case (Cons a cs)
  show ?case
  proof (cases "c = a")
    case True
    then show ?thesis
      using Cons.prems new_columns_fold_mono [of "new @ [a]" ocs bcs cs]
        new_columns_fold_mono [of new ocs bcs cs] by auto
  next
    case False
    then show ?thesis using Cons by auto
  qed
qed

lemma target_in_result_columns:
  assumes "col \<in> set (columns override_df)"
    and "target_col base_df add_columns col = Some t"
  shows "t \<in> set (columns base_df @ new_columns base_df override_df add_columns)"
proof (cases "case add_columns of None \<Rightarrow> False | Some cs \<Rightarrow> col \<in> set cs")
  case True
  then obtain cs where cs: "add_columns = Some cs" "col \<in> set cs"
    by (cases add_columns) auto
  have t: "t = col" using assms(2) True by (simp add: target_col_def)
  show ?thesis
  proof (cases "col \<in> set (columns base_df)")
    case True
    then show ?thesis by (simp add: t)
  next
    case False
    then show ?thesis
      using new_columns_fold_mem [OF cs(2) assms(1) False, of "[]"] cs(1)
      by (simp add: t new_columns_def)
  qed
next
  case False
  then have "filter (\<lambda>c. lower c = lower col) (columns base_df) \<noteq> [] \<and>
             t = hd (filter (\<lambda>c. lower c = lower col) (columns base_df))"
    using assms(2) by (auto simp: target_col_def split: list.splits)
  then have "t \<in> set (filter (\<lambda>c. lower c = lower col) (columns base_df))"
    by (metis list.set_sel(1))
  then show ?thesis by simp
qed

lemma scan_overrides_first_match:
  "scan_overrides accepts base_df add_columns i base_row ers st =
     (case first_match base_row ers of
        None \<Rightarrow> None
      | Some None \<Rightarrow> Some st
      | Some (Some (j, override_row)) \<Rightarrow>
          map_option
            (\<lambda>result. st\<lparr>result_df := result,
                          used_override_rows := insert j (used_override_rows st)\<rparr>)
            (override_values accepts base_df add_columns i override_row (result_df st)))"
  by (induction base_row ers rule: first_match.induct)
     (auto split: option.splits bool.splits)

lemma first_match_mem:
  "first_match base_row ers = Some (Some (j, override_row)) \<Longrightarrow> (j, override_row) \<in> set ers"
  by (induction base_row ers rule: first_match.induct)
     (auto split: option.splits bool.splits)

lemma iterrows_labels:
  "override_row \<in> set (iterrows override_df) \<Longrightarrow> (col, v) \<in> set override_row \<Longrightarrow>
   col \<in> set (columns override_df)"
  by (auto simp: iterrows_def dest: set_zip_leftD)

lemma enumerate_mem_snd: "(j, x) \<in> set (enumerate n xs) \<Longrightarrow> x \<in> set xs"
  by (auto simp: enumerate_eq_zip dest: set_zip_rightD)

lemma merge_loop_rows:
  assumes "merge_loop accepts base_df override_df add_columns
             (enumerate n (map (zip (columns base_df)) rs)) st = Some st'"
    and "columns (result_df st) = columns base_df @ new_columns base_df override_df add_columns"
    and "rows (result_df st) =
           done @ map (\<lambda>r. r @ replicate (length (new_columns base_df override_df add_columns)) NA) rs"
    and "n = length done"
  shows "\<exists>ms. those (map (merged_row base_df override_df add_columns) rs) = Some ms \<and>
              result_df st' = (result_df st)\<lparr>rows := done @ ms\<rparr>"
  using assms
proof (induction rs arbitrary: st "done" n)
  case Nil
  then show ?case by simp
next
  case (Cons r rs)
  let ?new = "new_columns base_df override_df add_columns"
  let ?ext = "\<lambda>r. r @ replicate (length ?new) NA"
  let ?b = "zip (columns base_df) r"
  let ?fm = "first_match ?b (enumerate 0 (iterrows override_df))"
  from Cons.prems(1) obtain st1 where
    scan: "scan_overrides accepts base_df add_columns n ?b (enumerate 0 (iterrows override_df)) st
             = Some st1"
    and loop: "merge_loop accepts base_df override_df add_columns
                 (enumerate (Suc n) (map (zip (columns base_df)) rs)) st1 = Some st'"
    by (auto split: option.splits)
  show ?case
  proof (cases ?fm)
    case None
    then show ?thesis
      using scan by (simp add: scan_overrides_first_match)
  next
    case (Some m)
    show ?thesis
    proof (cases m)
      case None
      have st1: "st1 = st"
        using scan Some None by (simp add: scan_overrides_first_match)
      have mr: "merged_row base_df override_df add_columns r = Some (?ext r)"
        using Some None by (simp add: merged_row_def Let_def)
      have rows': "rows (result_df st) = (done @ [?ext r]) @ map ?ext rs"
        using Cons.prems(3) by simp
      obtain ms where ms: "those (map (merged_row base_df override_df add_columns) rs) = Some ms"
        and res: "result_df st' = (result_df st)\<lparr>rows := (done @ [?ext r]) @ ms\<rparr>"
        using Cons.IH [OF loop [unfolded st1] Cons.prems(2) rows'] Cons.prems(4) by auto
      have "those (map (merged_row base_df override_df add_columns) (r # rs)) = Some (?ext r # ms)"
        using mr ms by simp
      moreover have "result_df st' = (result_df st)\<lparr>rows := done @ ?ext r # ms\<rparr>"
        using res by simp
      ultimately show ?thesis by blast
    next
      case inner: (Some jo)
      obtain j override_row where jo: "jo = (j, override_row)" by (cases jo)
      have fm: "?fm = Some (Some (j, override_row))" using Some inner jo by simp
      have orow: "override_row \<in> set (iterrows override_df)"
        using first_match_mem [OF fm] by (rule enumerate_mem_snd)
      let ?w = "write_row (columns base_df @ ?new) base_df add_columns override_row (?ext r)"
      have mr: "merged_row base_df override_df add_columns r = Some ?w"
        using fm by (simp add: merged_row_def Let_def)
      let ?res = "result_df st"
      from scan fm obtain res1 where
        ov: "override_values accepts base_df add_columns n override_row ?res = Some res1"
        and st1: "st1 = st\<lparr>result_df := res1,
                             used_override_rows := insert j (used_override_rows st)\<rparr>"
        by (auto simp: scan_overrides_first_match)
      have res1: "res1 = ?res\<lparr>rows := (rows ?res)[n := write_row (columns ?res) base_df add_columns
                                                    override_row (rows ?res ! n)]\<rparr>"
      proof (rule override_values_rows [OF ov])
        fix col v t
        assume "(col, v) \<in> set override_row" and t: "target_col base_df add_columns col = Some t"
        then have "col \<in> set (columns override_df)"
          using orow iterrows_labels by blast
        then show "t \<in> set (columns ?res)"
          using target_in_result_columns [OF _ t] Cons.prems(2) by simp
      qed
      have nth: "rows ?res ! n = ?ext r"
        using Cons.prems(3,4) by (simp add: nth_append)
      have upd: "(rows ?res)[n := ?w] = (done @ [?w]) @ map ?ext rs"
        using Cons.prems(3,4) by (simp add: list_update_append)
      have res': "result_df st1 = ?res\<lparr>rows := (done @ [?w]) @ map ?ext rs\<rparr>"
        using res1 nth upd Cons.prems(2) by (simp add: st1)
      have c1: "columns (result_df st1) = columns base_df @ ?new"
        using res' Cons.prems(2) by simp
      have r1: "rows (result_df st1) = (done @ [?w]) @ map ?ext rs"
        using res' by simp
      obtain ms where ms: "those (map (merged_row base_df override_df add_columns) rs) = Some ms"
        and res: "result_df st' = (result_df st1)\<lparr>rows := (done @ [?w]) @ ms\<rparr>"
        using Cons.IH [OF loop c1 r1] Cons.prems(4) by auto
      have "those (map (merged_row base_df override_df add_columns) (r # rs)) = Some (?w # ms)"
        using mr ms by simp
      moreover have "result_df st' = ?res\<lparr>rows := done @ ?w # ms\<rparr>"
        using res res' by simp
      ultimately show ?thesis by blast
    qed
  qed
qed

lemma those_Some_map: "those xs = Some ys \<Longrightarrow> xs = map Some ys"
  by (induction xs arbitrary: ys) (auto split: option.splits)

lemma those_map_nth:
  "those (map f xs) = Some ys \<Longrightarrow> i < length xs \<Longrightarrow> f (xs ! i) = Some (ys ! i)"
proof -
  assume a: "those (map f xs) = Some ys" and i: "i < length xs"
  have m: "map f xs = map Some ys" using a by (rule those_Some_map)
  then have "length xs = length ys" by (metis length_map)
  then show ?thesis using m i by (metis nth_map)
qed

lemma first_match_no_match:
  "(\<And>override_row. override_row \<in> set os \<Longrightarrow> match_files base_row override_row = Some False)
   \<Longrightarrow> first_match base_row (enumerate n os) = Some None"
  by (induction os arbitrary: n) auto

lemma first_match_first:
  "(\<And>p. p \<in> set pre \<Longrightarrow> match_files base_row p = Some False) \<Longrightarrow>
   match_files base_row override_row = Some True \<Longrightarrow>
   first_match base_row (enumerate n (pre @ override_row # post)) =
     Some (Some (n + length pre, override_row))"
  by (induction pre arbitrary: n) auto

lemma merge_csvs_Some:
  assumes "merge_csvs accepts base_df override_df add_columns = Some R"
  shows "columns R = columns base_df @ new_columns base_df override_df add_columns"
    and "length (rows R) = length (rows base_df)"
    and "map Some (rows R) = map (merged_row base_df override_df add_columns) (rows base_df)"
    and "i < length (rows base_df) \<Longrightarrow>
           merged_row base_df override_df add_columns (rows base_df ! i) = Some (rows R ! i)"
proof -
  let ?st = "\<lparr>result_df = add_requested_columns override_df add_columns base_df,
              used_override_rows = {}\<rparr>"
  from assms obtain st' where
    loop: "merge_loop accepts base_df override_df add_columns
             (enumerate 0 (map (zip (columns base_df)) (rows base_df))) ?st = Some st'"
    and R: "R = result_df st'"
    by (auto simp: merge_csvs_def merge_run_def iterrows_def)
  have "\<exists>ms. those (map (merged_row base_df override_df add_columns) (rows base_df)) = Some ms \<and>
              result_df st' = (result_df ?st)\<lparr>rows := [] @ ms\<rparr>"
    by (rule merge_loop_rows [OF loop]) (simp_all add: add_requested_columns_eq)
  then obtain ms where
    ms: "those (map (merged_row base_df override_df add_columns) (rows base_df)) = Some ms"
    and res: "R = (add_requested_columns override_df add_columns base_df)\<lparr>rows := ms\<rparr>"
    using R by auto
  show "columns R = columns base_df @ new_columns base_df override_df add_columns"
    by (simp add: res add_requested_columns_eq)
  show m: "map Some (rows R) = map (merged_row base_df override_df add_columns) (rows base_df)"
    using those_Some_map [OF ms] by (simp add: res)
  then show "length (rows R) = length (rows base_df)"
    by (metis length_map)
  show "i < length (rows base_df) \<Longrightarrow>
           merged_row base_df override_df add_columns (rows base_df ! i) = Some (rows R ! i)"
    using those_map_nth [OF ms] by (simp add: res)
qed

lemma iterrows_nth:
  "i < length (rows df) \<Longrightarrow> iterrows df ! i = zip (columns df) (rows df ! i)"
  by (simp add: iterrows_def)

lemma merge_loop_no_match:
  "\<forall>b \<in> set bs. first_match (snd b) (enumerate 0 (iterrows override_df)) = Some None \<Longrightarrow>
   merge_loop accepts base_df override_df add_columns bs st = Some st"
proof (induction bs)
  case Nil
  show ?case by simp
next
  case (Cons b bs)
  obtain i base_row where b: "b = (i, base_row)" by (cases b)
  have "scan_overrides accepts base_df add_columns i base_row
          (enumerate 0 (iterrows override_df)) st = Some st"
    using Cons.prems by (simp add: scan_overrides_first_match b)
  then show ?case using Cons by (simp add: b)
qed

lemma scan_overrides_used:
  "scan_overrides accepts base_df add_columns i base_row ers st = Some st' \<Longrightarrow>
   used_override_rows st \<subseteq> used_override_rows st' \<and>
   (\<forall>j override_row. first_match base_row ers = Some (Some (j, override_row)) \<longrightarrow>
      j \<in> used_override_rows st')"
  unfolding scan_overrides_first_match
  by (auto split: option.splits)

lemma merge_loop_used_mono:
  "merge_loop accepts base_df override_df add_columns bs st = Some st' \<Longrightarrow>
   used_override_rows st \<subseteq> used_override_rows st'"
proof (induction bs arbitrary: st)
  case Nil
  then show ?case by simp
next
  case (Cons p bs)
  obtain i base_row where p: "p = (i, base_row)" by (cases p)
  from Cons.prems obtain st1 where
    s: "scan_overrides accepts base_df add_columns i base_row
          (enumerate 0 (iterrows override_df)) st = Some st1"
    and l: "merge_loop accepts base_df override_df add_columns bs st1 = Some st'"
    by (auto simp: p split: option.splits)
  show ?case
    using scan_overrides_used [OF s] Cons.IH [OF l] by blast
qed

lemma merge_loop_used_mem:
  "merge_loop accepts base_df override_df add_columns bs st = Some st' \<Longrightarrow>
   (i, base_row) \<in> set bs \<Longrightarrow>
   first_match base_row (enumerate 0 (iterrows override_df)) = Some (Some (j, override_row)) \<Longrightarrow>
   j \<in> used_override_rows st'"
proof (induction bs arbitrary: st)
  case Nil
  then show ?case by simp
next
  case (Cons p bs)
  obtain i' base_row' where p: "p = (i', base_row')" by (cases p)
  from Cons.prems(1) obtain st1 where
    s: "scan_overrides accepts base_df add_columns i' base_row'
          (enumerate 0 (iterrows override_df)) st = Some st1"
    and l: "merge_loop accepts base_df override_df add_columns bs st1 = Some st'"
    by (auto simp: p split: option.splits)
  show ?case
  proof (cases "(i, base_row) = p")
    case True
    then have "j \<in> used_override_rows st1"
      using scan_overrides_used [OF s] Cons.prems(3) p by auto
    then show ?thesis
      using merge_loop_used_mono [OF l] by blast
  next
    case False
    then have "(i, base_row) \<in> set bs" using Cons.prems(2) by simp
    then show ?thesis using Cons.IH [OF l _ Cons.prems(3)] by blast
  qed
qed

lemma merge_run_result:
  "merge_run accepts base_df override_df add_columns = Some st \<Longrightarrow>
   merge_csvs accepts base_df override_df add_columns = Some (result_df st)"
  by (simp add: merge_csvs_def)

lemma merged_row_first:
  assumes "iterrows override_df = pre @ override_row # post"
    and "\<forall>p \<in> set pre. match_files (zip (columns base_df) r) p = Some False"
    and "match_files (zip (columns base_df) r) override_row = Some True"
  shows "merged_row base_df override_df add_columns r =
           Some (write_row (columns base_df @ new_columns base_df override_df add_columns)
                   base_df add_columns override_row
                   (r @ replicate (length (new_columns base_df override_df add_columns)) NA))"
proof -
  have "first_match (zip (columns base_df) r) (enumerate 0 (pre @ override_row # post)) =
          Some (Some (0 + length pre, override_row))"
    using assms(2,3) by (intro first_match_first) auto
  then show ?thesis
    by (simp add: merged_row_def assms(1) Let_def)
qed

section \<open>Claims about the row matcher and the merge\<close>

text \<open>
  C1 (as amended). \<open>merge_csvs\<close> does not return on every input: the file-name comparison
  raises on a \<open>Name\<close> or \<open>file\<close> cell that is not a string, and a write raises when the
  column's dtype refuses the value. Whenever it returns, under whatever dtype rule, the
  result has exactly as many rows as the base table and its rows stand in the base table's
  order: row \<open>i\<close> of the result is \<open>merged_row\<close> of row \<open>i\<close> of the base table, whatever
  the override rows match.
\<close>

theorem merge_rows_and_order:
  "\<forall>R. merge_csvs accepts base_df override_df add_columns = Some R \<longrightarrow>
       length (rows R) = length (rows base_df) \<and>
       map Some (rows R) = map (merged_row base_df override_df add_columns) (rows base_df)"
proof (intro conjI allI impI)
  fix R
  assume "merge_csvs accepts base_df override_df add_columns = Some R"
  then show "length (rows R) = length (rows base_df)"
    and "map Some (rows R) = map (merged_row base_df override_df add_columns) (rows base_df)"
    by (rule merge_csvs_Some)+
qed

theorem merge_rows_and_order_witness:
  "merge_csvs any_value base0 override0 (Some [''NewMetric'']) =
     Some \<lparr>columns = [''Name'', ''DCC'', ''lcc'', ''CIS'', ''DSC'', ''NewMetric''],
           rows = [[Str ''src/Foo.java'', Num 5, Num 1, Num 3, Num 1, Num 7],
                   [Str ''src/Bar.java'', Num 4, Num 0, Num 1, Num 1, NA]]\<rparr>
   \<and> length [[Str ''src/Foo.java'', Num 5, Num 1, Num 3, Num 1, Num 7],
              [Str ''src/Bar.java'', Num 4, Num 0, Num 1, Num 1, NA]] = length (rows base0)
   \<and> map Some [[Str ''src/Foo.java'', Num 5, Num 1, Num 3, Num 1, Num 7],
                [Str ''src/Bar.java'', Num 4, Num 0, Num 1, Num 1, NA]] =
       map (merged_row base0 override0 (Some [''NewMetric''])) (rows base0)"
proof -
  have m: "merge_csvs any_value base0 override0 (Some [''NewMetric'']) =
     Some \<lparr>columns = [''Name'', ''DCC'', ''lcc'', ''CIS'', ''DSC'', ''NewMetric''],
           rows = [[Str ''src/Foo.java'', Num 5, Num 1, Num 3, Num 1, Num 7],
                   [Str ''src/Bar.java'', Num 4, Num 0, Num 1, Num 1, NA]]\<rparr>"
    by code_simp
  show ?thesis
    using merge_rows_and_order [of any_value base0 override0 "Some [''NewMetric'']"] m
    by simp
qed

text \<open>
  C1 as stated fails: a base table whose \<open>Name\<close> cell is empty, merged with an override
  table that has a \<open>file\<close> column, makes \<open>merge_csvs\<close> raise before any value is written,
  so no table is returned, whatever the dtypes accept.
\<close>

theorem merge_raises_counterexample:
  "\<not> (\<exists>accepts R.
         merge_csvs accepts \<lparr>columns = [''Name'', ''DCC''], rows = [[NA, Num 2]]\<rparr>
           \<lparr>columns = [''file'', ''DCC''], rows = [[Str ''Foo.java'', Num 5]]\<rparr> None = Some R
         \<and> length (rows R) = 1)"
proof -
  have "match_files [(''Name'', NA), (''DCC'', Num 2)]
          [(''file'', Str ''Foo.java''), (''DCC'', Num 5)] = None"
    by code_simp
  then have "merge_csvs accepts \<lparr>columns = [''Name'', ''DCC''], rows = [[NA, Num 2]]\<rparr>
          \<lparr>columns = [''file'', ''DCC''], rows = [[Str ''Foo.java'', Num 5]]\<rparr> None = None"
    for accepts
    by (simp add: merge_csvs_def merge_run_def iterrows_def)
  then show ?thesis by simp
qed




text \<open>
  C3. When the override rows before \<open>override_row\<close> do not match base row \<open>i\<close> and
  \<open>override_row\<close> does, the scan for that base row ends at \<open>override_row\<close>: it does what
  writing the values of \<open>override_row\<close> does, whatever rows follow it (\<open>post\<close>). It raises
  when one of these writes is refused, and otherwise returns the state made from
  \<open>override_row\<close> alone. Row \<open>i\<close> of the merged table is the base row with the values of
  \<open>override_row\<close> written in.
\<close>

theorem first_match_wins:
  assumes "i < length (rows base_df)"
    and "iterrows override_df = pre @ override_row # post"
    and "\<forall>p \<in> set pre. match_files (iterrows base_df ! i) p = Some False"
    and "match_files (iterrows base_df ! i) override_row = Some True"
  shows "scan_overrides accepts base_df add_columns i (iterrows base_df ! i)
             (enumerate 0 (iterrows override_df)) st =
           map_option
             (\<lambda>result. st\<lparr>result_df := result,
                           used_override_rows := insert (length pre) (used_override_rows st)\<rparr>)
             (override_values accepts base_df add_columns i override_row (result_df st))
       \<and> (\<forall>R. merge_csvs accepts base_df override_df add_columns = Some R \<longrightarrow>
             rows R ! i =
               write_row (columns R) base_df add_columns override_row
                 (rows base_df ! i @ replicate (length (columns R) - length (columns base_df)) NA))"
proof (intro conjI allI impI)
  have "first_match (iterrows base_df ! i) (enumerate 0 (pre @ override_row # post)) =
          Some (Some (0 + length pre, override_row))"
    using assms(3,4) by (intro first_match_first) auto
  then show "scan_overrides accepts base_df add_columns i (iterrows base_df ! i)
             (enumerate 0 (iterrows override_df)) st =
           map_option
             (\<lambda>result. st\<lparr>result_df := result,
                           used_override_rows := insert (length pre) (used_override_rows st)\<rparr>)
             (override_values accepts base_df add_columns i override_row (result_df st))"
    by (simp add: scan_overrides_first_match assms(2))
next
  fix R
  assume R: "merge_csvs accepts base_df override_df add_columns = Some R"
  have b: "iterrows base_df ! i = zip (columns base_df) (rows base_df ! i)"
    using assms(1) by (rule iterrows_nth)
  have "merged_row base_df override_df add_columns (rows base_df ! i) = Some (rows R ! i)"
    using merge_csvs_Some(4) [OF R assms(1)] .
  moreover have "columns R = columns base_df @ new_columns base_df override_df add_columns"
    using merge_csvs_Some(1) [OF R] .
  ultimately show "rows R ! i =
               write_row (columns R) base_df add_columns override_row
                 (rows base_df ! i @ replicate (length (columns R) - length (columns base_df)) NA)"
    using merged_row_first [OF assms(2), of base_df "rows base_df ! i" add_columns] assms(3,4) b
    by simp
qed

theorem first_match_wins_witness:
  "merge_csvs any_value base1 override1 (Some [''NewMetric'']) =
     Some \<lparr>columns = [''Name'', ''DCC'', ''NewMetric''],
           rows = [[Str ''src/Foo.java'', Num 5, Num 11],
                   [Str ''lib/foo.java'', Num 5, Num 11],
                   [Str ''src/Baz.java'', Num 9, NA]]\<rparr>
   \<and> rows \<lparr>columns = [''Name'', ''DCC'', ''NewMetric''],
           rows = [[Str ''src/Foo.java'', Num 5, Num 11],
                   [Str ''lib/foo.java'', Num 5, Num 11],
                   [Str ''src/Baz.java'', Num 9, NA]]\<rparr> ! 0 =
       write_row [''Name'', ''DCC'', ''NewMetric''] base1 (Some [''NewMetric''])
         [(''file'', Str ''foo.java''), (''dcc'', Num 5), (''NewMetric'', Num 11)]
         [Str ''src/Foo.java'', Num 2, NA]"
proof -
  let ?R = "\<lparr>columns = [''Name'', ''DCC'', ''NewMetric''],
           rows = [[Str ''src/Foo.java'', Num 5, Num 11],
                   [Str ''lib/foo.java'', Num 5, Num 11],
                   [Str ''src/Baz.java'', Num 9, NA]]\<rparr>"
  have i: "0 < length (rows base1)" by code_simp
  have o: "iterrows override1 =
      [[(''file'', Str ''Bar.java''), (''dcc'', Num 1), (''NewMetric'', Num 10)]] @
      [(''file'', Str ''foo.java''), (''dcc'', Num 5), (''NewMetric'', Num 11)] #
      [[(''file'', Str ''FOO.java''), (''dcc'', Num 6), (''NewMetric'', Num 12)]]"
    by code_simp
  have no: "\<forall>p \<in> set [[(''file'', Str ''Bar.java''), (''dcc'', Num 1), (''NewMetric'', Num 10)]].
              match_files (iterrows base1 ! 0) p = Some False"
    by code_simp
  have yes: "match_files (iterrows base1 ! 0)
      [(''file'', Str ''foo.java''), (''dcc'', Num 5), (''NewMetric'', Num 11)] = Some True"
    by code_simp
  have m: "merge_csvs any_value base1 override1 (Some [''NewMetric'']) = Some ?R"
    by code_simp
  have c: "columns ?R = [''Name'', ''DCC'', ''NewMetric'']" by simp
  have b: "rows base1 ! 0 @ replicate (length (columns ?R) - length (columns base1)) NA
      = [Str ''src/Foo.java'', Num 2, NA]" by code_simp
  show ?thesis
    using first_match_wins [OF i o no yes, of any_value "Some [''NewMetric'']"] m b
    by (simp del: rows_def)
qed

text \<open>
  C4. When two different base rows both have \<open>override_row\<close> as their first match, both
  rows of the result receive its values, its position is recorded as used, and a scan that
  starts from a state in which that position is already recorded applies the row all the
  same: its frame is the one that writing the values of \<open>override_row\<close> gives, and it raises
  only when one of these writes is refused.
\<close>

theorem override_row_reused:
  assumes "i1 < length (rows base_df)" and "i2 < length (rows base_df)" and "i1 \<noteq> i2"
    and "iterrows override_df = pre @ override_row # post"
    and "\<forall>p \<in> set pre. match_files (iterrows base_df ! i1) p = Some False"
    and "match_files (iterrows base_df ! i1) override_row = Some True"
    and "\<forall>p \<in> set pre. match_files (iterrows base_df ! i2) p = Some False"
    and "match_files (iterrows base_df ! i2) override_row = Some True"
    and "merge_run accepts base_df override_df add_columns = Some st"
  shows "rows (result_df st) ! i1 =
           write_row (columns (result_df st)) base_df add_columns override_row
             (rows base_df ! i1 @ replicate (length (new_columns base_df override_df add_columns)) NA)
       \<and> rows (result_df st) ! i2 =
           write_row (columns (result_df st)) base_df add_columns override_row
             (rows base_df ! i2 @ replicate (length (new_columns base_df override_df add_columns)) NA)
       \<and> length pre \<in> used_override_rows st
       \<and> (\<forall>st0. length pre \<in> used_override_rows st0 \<longrightarrow>
             map_option result_df
               (scan_overrides accepts base_df add_columns i2 (iterrows base_df ! i2)
                  (enumerate 0 (iterrows override_df)) st0) =
             override_values accepts base_df add_columns i2 override_row (result_df st0))"
proof -
  let ?R = "result_df st"
  have R: "merge_csvs accepts base_df override_df add_columns = Some ?R"
    using assms(9) by (rule merge_run_result)
  have cols: "columns ?R = columns base_df @ new_columns base_df override_df add_columns"
    using merge_csvs_Some(1) [OF R] .
  have row: "rows ?R ! i =
           write_row (columns ?R) base_df add_columns override_row
             (rows base_df ! i @ replicate (length (new_columns base_df override_df add_columns)) NA)"
    if i: "i < length (rows base_df)"
      and no: "\<forall>p \<in> set pre. match_files (iterrows base_df ! i) p = Some False"
      and yes: "match_files (iterrows base_df ! i) override_row = Some True" for i
  proof -
    have b: "iterrows base_df ! i = zip (columns base_df) (rows base_df ! i)"
      using i by (rule iterrows_nth)
    have "merged_row base_df override_df add_columns (rows base_df ! i) = Some (rows ?R ! i)"
      using merge_csvs_Some(4) [OF R i] .
    then show ?thesis
      using merged_row_first [OF assms(4), of base_df "rows base_df ! i" add_columns] no yes b cols
      by simp
  qed
  have fm: "first_match (iterrows base_df ! i2) (enumerate 0 (iterrows override_df)) =
          Some (Some (length pre, override_row))"
    using first_match_first [of pre "iterrows base_df ! i2" override_row 0 post] assms(4,7,8)
    by simp
  have "(i2, iterrows base_df ! i2) \<in> set (enumerate 0 (iterrows base_df))"
    using assms(2) by (simp add: in_set_enumerate_eq iterrows_def)
  then have used: "length pre \<in> used_override_rows st"
    using merge_loop_used_mem [OF _ _ fm] assms(9) unfolding merge_run_def by blast
  have scan: "\<forall>st0. length pre \<in> used_override_rows st0 \<longrightarrow>
             map_option result_df
               (scan_overrides accepts base_df add_columns i2 (iterrows base_df ! i2)
                  (enumerate 0 (iterrows override_df)) st0) =
             override_values accepts base_df add_columns i2 override_row (result_df st0)"
    by (simp add: scan_overrides_first_match fm option.map_comp comp_def option.map_ident)
  show ?thesis
    using row [OF assms(1,5,6)] row [OF assms(2,7,8)] used scan by blast
qed

theorem override_row_reused_witness:
  "merge_run any_value base1 override1 (Some [''NewMetric'']) =
     Some \<lparr>result_df =
             \<lparr>columns = [''Name'', ''DCC'', ''NewMetric''],
              rows = [[Str ''src/Foo.java'', Num 5, Num 11],
                      [Str ''lib/foo.java'', Num 5, Num 11],
                      [Str ''src/Baz.java'', Num 9, NA]]\<rparr>,
           used_override_rows = {1}\<rparr>
   \<and> write_row [''Name'', ''DCC'', ''NewMetric''] base1 (Some [''NewMetric''])
         [(''file'', Str ''foo.java''), (''dcc'', Num 5), (''NewMetric'', Num 11)]
         [Str ''src/Foo.java'', Num 2, NA] = [Str ''src/Foo.java'', Num 5, Num 11]
   \<and> write_row [''Name'', ''DCC'', ''NewMetric''] base1 (Some [''NewMetric''])
         [(''file'', Str ''foo.java''), (''dcc'', Num 5), (''NewMetric'', Num 11)]
         [Str ''lib/foo.java'', Num 3, NA] = [Str ''lib/foo.java'', Num 5, Num 11]
   \<and> length [[(''file'', Str ''Bar.java''), (''dcc'', Num 1), (''NewMetric'', Num 10)]]
         \<in> {1::nat}"
proof -
  let ?st = "\<lparr>result_df =
             \<lparr>columns = [''Name'', ''DCC'', ''NewMetric''],
              rows = [[Str ''src/Foo.java'', Num 5, Num 11],
                      [Str ''lib/foo.java'', Num 5, Num 11],
                      [Str ''src/Baz.java'', Num 9, NA]]\<rparr>,
           used_override_rows = {1}\<rparr>"
  let ?pre = "[[(''file'', Str ''Bar.java''), (''dcc'', Num 1), (''NewMetric'', Num 10)]]"
  let ?o = "[(''file'', Str ''foo.java''), (''dcc'', Num 5), (''NewMetric'', Num 11)]"
  have i1: "0 < length (rows base1)" and i2: "1 < length (rows base1)" and ne: "(0::nat) \<noteq> 1"
    by code_simp+
  have o: "iterrows override1 =
      ?pre @ ?o # [[(''file'', Str ''FOO.java''), (''dcc'', Num 6), (''NewMetric'', Num 12)]]"
    by code_simp
  have no1: "\<forall>p \<in> set ?pre. match_files (iterrows base1 ! 0) p = Some False" by code_simp
  have yes1: "match_files (iterrows base1 ! 0) ?o = Some True" by code_simp
  have no2: "\<forall>p \<in> set ?pre. match_files (iterrows base1 ! 1) p = Some False" by code_simp
  have yes2: "match_files (iterrows base1 ! 1) ?o = Some True" by code_simp
  have m: "merge_run any_value base1 override1 (Some [''NewMetric'']) = Some ?st" by code_simp
  have n: "new_columns base1 override1 (Some [''NewMetric'']) = [''NewMetric'']" by code_simp
  have b1: "rows base1 ! 0 = [Str ''src/Foo.java'', Num 2]"
    and b2: "rows base1 ! 1 = [Str ''lib/foo.java'', Num 3]" by code_simp+
  show ?thesis
    using override_row_reused [OF i1 i2 ne o no1 yes1 no2 yes2 m] m n b1 b2
    by simp
qed

text \<open>
  C9. A base row that no override row matches keeps its values: its row of the result is the
  base row followed by an empty cell for each added column, the base columns standing first
  among the result's columns. When no base row matches any override row, the result is the
  base table with the added columns, empty in every row.
\<close>

theorem unmatched_rows_unchanged:
  "(\<forall>i R. i < length (rows base_df) \<and>
           (\<forall>ov \<in> set (iterrows override_df). match_files (iterrows base_df ! i) ov = Some False) \<and>
           merge_csvs accepts base_df override_df add_columns = Some R \<longrightarrow>
           columns R = columns base_df @ new_columns base_df override_df add_columns \<and>
           rows R ! i =
             rows base_df ! i @ replicate (length (new_columns base_df override_df add_columns)) NA)
   \<and> ((\<forall>b \<in> set (iterrows base_df). \<forall>ov \<in> set (iterrows override_df).
          match_files b ov = Some False) \<longrightarrow>
        merge_csvs accepts base_df override_df add_columns =
          Some (base_df\<lparr>columns := columns base_df @ new_columns base_df override_df add_columns,
                        rows := map (\<lambda>r. r @ replicate
                                  (length (new_columns base_df override_df add_columns)) NA)
                                  (rows base_df)\<rparr>))"
proof (intro conjI allI impI)
  fix i R
  assume a: "i < length (rows base_df) \<and>
           (\<forall>ov \<in> set (iterrows override_df). match_files (iterrows base_df ! i) ov = Some False) \<and>
           merge_csvs accepts base_df override_df add_columns = Some R"
  then have i: "i < length (rows base_df)"
    and R: "merge_csvs accepts base_df override_df add_columns = Some R" by auto
  show "columns R = columns base_df @ new_columns base_df override_df add_columns"
    using merge_csvs_Some(1) [OF R] .
  have b: "iterrows base_df ! i = zip (columns base_df) (rows base_df ! i)"
    using i by (rule iterrows_nth)
  have "first_match (zip (columns base_df) (rows base_df ! i)) (enumerate 0 (iterrows override_df))
          = Some None"
    using a b by (intro first_match_no_match) auto
  then have "merged_row base_df override_df add_columns (rows base_df ! i) =
          Some (rows base_df ! i @ replicate (length (new_columns base_df override_df add_columns)) NA)"
    by (simp add: merged_row_def Let_def)
  then show "rows R ! i =
             rows base_df ! i @ replicate (length (new_columns base_df override_df add_columns)) NA"
    using merge_csvs_Some(4) [OF R i] by simp
next
  assume a: "\<forall>b \<in> set (iterrows base_df). \<forall>ov \<in> set (iterrows override_df).
          match_files b ov = Some False"
  let ?ext = "\<lambda>r. r @ replicate (length (new_columns base_df override_df add_columns)) NA"
  have "merge_run accepts base_df override_df add_columns =
          Some \<lparr>result_df = add_requested_columns override_df add_columns base_df,
                used_override_rows = {}\<rparr>"
    unfolding merge_run_def
  proof (rule merge_loop_no_match, intro ballI)
    fix b assume "b \<in> set (enumerate 0 (iterrows base_df))"
    then have "snd b \<in> set (iterrows base_df)"
      using enumerate_mem_snd [of "fst b" "snd b" 0 "iterrows base_df"] by simp
    then show "first_match (snd b) (enumerate 0 (iterrows override_df)) = Some None"
      using a by (intro first_match_no_match) auto
  qed
  then show "merge_csvs accepts base_df override_df add_columns =
          Some (base_df\<lparr>columns := columns base_df @ new_columns base_df override_df add_columns,
                        rows := map ?ext (rows base_df)\<rparr>)"
    by (simp add: merge_csvs_def add_requested_columns_eq with_new_columns_def)
qed

theorem unmatched_rows_unchanged_witness:
  "merge_csvs any_value base1 override1 (Some [''NewMetric'']) =
     Some \<lparr>columns = [''Name'', ''DCC'', ''NewMetric''],
           rows = [[Str ''src/Foo.java'', Num 5, Num 11],
                   [Str ''lib/foo.java'', Num 5, Num 11],
                   [Str ''src/Baz.java'', Num 9, NA]]\<rparr>
   \<and> [Str ''src/Baz.java'', Num 9, NA] = rows base1 ! 2 @ replicate 1 NA
   \<and> merge_csvs any_value base1 override2 (Some [''NewMetric'']) =
     Some \<lparr>columns = [''Name'', ''DCC'', ''NewMetric''],
           rows = [[Str ''src/Foo.java'', Num 2, NA],
                   [Str ''lib/foo.java'', Num 3, NA],
                   [Str ''src/Baz.java'', Num 9, NA]]\<rparr>"
proof -
  let ?R = "\<lparr>columns = [''Name'', ''DCC'', ''NewMetric''],
           rows = [[Str ''src/Foo.java'', Num 5, Num 11],
                   [Str ''lib/foo.java'', Num 5, Num 11],
                   [Str ''src/Baz.java'', Num 9, NA]]\<rparr>"
  have i: "2 < length (rows base1)" by code_simp
  have no: "\<forall>ov \<in> set (iterrows override1). match_files (iterrows base1 ! 2) ov = Some False"
    by code_simp
  have m: "merge_csvs any_value base1 override1 (Some [''NewMetric'']) = Some ?R" by code_simp
  have n1: "new_columns base1 override1 (Some [''NewMetric'']) = [''NewMetric'']" by code_simp
  have row: "rows ?R ! 2 = rows base1 ! 2 @ replicate (length [''NewMetric'']) NA"
    using unmatched_rows_unchanged [of base1 override1 any_value "Some [''NewMetric'']"] i no m
    unfolding n1 by blast
  have none: "\<forall>b \<in> set (iterrows base1). \<forall>ov \<in> set (iterrows override2).
      match_files b ov = Some False"
    by code_simp
  have n2: "new_columns base1 override2 (Some [''NewMetric'']) = [''NewMetric'']" by code_simp
  have whole: "merge_csvs any_value base1 override2 (Some [''NewMetric'']) =
      Some (base1\<lparr>columns := columns base1 @ [''NewMetric''],
                  rows := map (\<lambda>r. r @ replicate (length [''NewMetric'']) NA) (rows base1)\<rparr>)"
    using unmatched_rows_unchanged [of base1 override2 any_value "Some [''NewMetric'']"] none
    unfolding n2 by blast
  show ?thesis
    using m row whole by (simp add: base1_def)
qed

section \<open>Properties of the recalculation\<close>

lemma index_of_less: "x \<in> set xs \<Longrightarrow> index_of x xs < length xs"
  unfolding index_of_def by (induction xs) auto

lemma index_of_nth: "x \<in> set xs \<Longrightarrow> xs ! index_of x xs = x"
  unfolding index_of_def by (induction xs) auto

lemma index_of_append: "x \<in> set xs \<Longrightarrow> index_of x (xs @ ys) = index_of x xs"
  unfolding index_of_def by (induction xs) auto

lemma index_of_new: "x \<notin> set xs \<Longrightarrow> index_of x (xs @ [x]) = length xs"
  unfolding index_of_def by (induction xs) auto

lemma index_of_inj: "x \<in> set xs \<Longrightarrow> index_of x xs = index_of y xs \<Longrightarrow> x = y"
  unfolding index_of_def by (induction xs) (auto split: if_splits)

lemma columns_set_column:
  "columns (set_column df c vs) = (if c \<in> set (columns df) then columns df else columns df @ [c])"
  by (simp add: set_column_def)

lemma length_rows_set_column:
  "length vs = length (rows df) \<Longrightarrow> length (rows (set_column df c vs)) = length (rows df)"
  by (simp add: set_column_def)

lemma wf_set_column:
  assumes "wf_table df" and "length vs = length (rows df)"
  shows "wf_table (set_column df c vs)"
  using assms
  by (auto simp: wf_table_def set_column_def list_all_iff dest!: set_zip_leftD)

lemma column_set_column_same:
  assumes "wf_table df" and "length vs = length (rows df)"
  shows "column (set_column df c vs) c = vs"
proof (cases "c \<in> set (columns df)")
  case True
  have "map (\<lambda>r. r ! index_of c (columns df))
          (map (\<lambda>(r, v). r[index_of c (columns df) := v]) (zip (rows df) vs)) = map snd (zip (rows df) vs)"
    using assms(1) index_of_less [OF True]
    by (auto simp: wf_table_def list_all_iff dest!: set_zip_leftD)
  then show ?thesis
    using True assms(2) by (simp add: column_def set_column_def)
next
  case False
  have "map (\<lambda>r. r ! index_of c (columns df @ [c]))
          (map (\<lambda>(r, v). r @ [v]) (zip (rows df) vs)) = map snd (zip (rows df) vs)"
    using assms(1) index_of_new [OF False]
    by (auto simp: wf_table_def list_all_iff nth_append dest!: set_zip_leftD)
  then show ?thesis
    using False assms(2) by (simp add: column_def set_column_def)
qed

lemma column_set_column_other:
  assumes "wf_table df" and "length vs = length (rows df)"
    and "c' \<noteq> c" and "c' \<in> set (columns df)"
  shows "column (set_column df c vs) c' = column df c'"
proof (cases "c \<in> set (columns df)")
  case True
  have ne: "index_of c' (columns df) \<noteq> index_of c (columns df)"
    using index_of_inj [OF assms(4)] assms(3) by blast
  have "map (\<lambda>r. r ! index_of c' (columns df))
          (map (\<lambda>(r, v). r[index_of c (columns df) := v]) (zip (rows df) vs))
        = map (\<lambda>r. r ! index_of c' (columns df)) (map fst (zip (rows df) vs))"
    using ne by auto
  then show ?thesis
    using True assms(2) by (simp add: column_def set_column_def)
next
  case False
  have "map (\<lambda>r. r ! index_of c' (columns df @ [c]))
          (map (\<lambda>(r, v). r @ [v]) (zip (rows df) vs))
        = map (\<lambda>r. r ! index_of c' (columns df)) (map fst (zip (rows df) vs))"
    using assms(1) index_of_less [OF assms(4)] index_of_append [OF assms(4)]
    by (auto simp: wf_table_def list_all_iff nth_append dest!: set_zip_leftD)
  then show ?thesis
    using False assms(2) by (simp add: column_def set_column_def)
qed

lemma set_column_same_values:
  assumes "wf_table df" and "c \<in> set (columns df)"
  shows "set_column df c (column df c) = df"
proof -
  have "map (\<lambda>(r, v). r[index_of c (columns df) := v]) (zip (rows df) (column df c)) = rows df"
    unfolding column_def by (induction "rows df") (auto simp: zip_map2 intro: nth_equalityI)
  then show ?thesis
    using assms(2) by (simp add: set_column_def)
qed

lemma those_length: "those xs = Some ys \<Longrightarrow> length ys = length xs"
  by (induction xs arbitrary: ys) (auto split: option.splits)

lemma length_column [simp]: "length (column df c) = length (rows df)"
  by (simp add: column_def)

lemma unary_Column_length:
  "unary g v = Some (Column ys) \<Longrightarrow> \<exists>xs. v = Column xs \<and> length ys = length xs"
  by (cases v) (auto dest: those_length split: option.splits cell.splits)

lemma binary_Column_length:
  assumes "binary f v w = Some (Column zs)"
    and "\<And>xs. v = Column xs \<Longrightarrow> length xs = n"
    and "\<And>ys. w = Column ys \<Longrightarrow> length ys = n"
  shows "length zs = n"
  using assms
  by (cases v; cases w) (auto dest!: those_length)

lemma eval_ast_Column_length:
  "eval_ast df a = Some (Column vs) \<Longrightarrow> length vs = length (rows df)"
proof (induction a arbitrary: vs)
  case (ASubscript a k)
  then show ?case
    by (auto split: option.splits pyval.splits if_splits)
next
  case (ANeg a)
  then show ?case
    by (auto split: option.splits dest!: unary_Column_length)
next
  case (APos a)
  then show ?case
    by (auto split: option.splits dest!: unary_Column_length)
next
  case (AAdd a b)
  from AAdd.prems obtain v w where v: "eval_ast df a = Some v" and w: "eval_ast df b = Some w"
    and b: "binary (+) v w = Some (Column vs)"
    by (auto split: option.splits)
  show ?case
    by (rule binary_Column_length [OF b]) (use v w AAdd.IH in auto)
next
  case (ASub a b)
  from ASub.prems obtain v w where v: "eval_ast df a = Some v" and w: "eval_ast df b = Some w"
    and b: "binary (-) v w = Some (Column vs)"
    by (auto split: option.splits)
  show ?case
    by (rule binary_Column_length [OF b]) (use v w ASub.IH in auto)
next
  case (AMul a b)
  from AMul.prems obtain v w where v: "eval_ast df a = Some v" and w: "eval_ast df b = Some w"
    and b: "binary (*) v w = Some (Column vs)"
    by (auto split: option.splits)
  show ?case
    by (rule binary_Column_length [OF b]) (use v w AMul.IH in auto)
qed (auto split: if_splits)

lemma eval_formula_length:
  "eval_formula df formula = Some vs \<Longrightarrow> length vs = length (rows df)"
  by (auto simp: eval_formula_def py_eval_def dest: eval_ast_Column_length
      split: option.splits pyval.splits)

lemma recalculate_metric_columns:
  "columns (recalculate_metric df res (m, f)) =
     (if m \<in> set (columns res) then columns res else columns res @ [m])"
  by (simp add: recalculate_metric_def columns_set_column split: option.splits)

lemma recalculate_metric_wf:
  assumes "wf_table res" and "length (rows res) = length (rows df)"
  shows "wf_table (recalculate_metric df res mf) \<and>
         length (rows (recalculate_metric df res mf)) = length (rows df)"
proof (cases mf)
  case (Pair m f)
  show ?thesis
  proof (cases "eval_formula df f")
    case None
    then show ?thesis
      using assms Pair
      by (simp add: recalculate_metric_def wf_set_column length_rows_set_column)
  next
    case (Some vs)
    then have "length vs = length (rows res)"
      using eval_formula_length assms(2) by simp
    then show ?thesis
      using assms Pair Some
      by (simp add: recalculate_metric_def wf_set_column length_rows_set_column)
  qed
qed

lemma recalculate_metric_column_same:
  assumes "wf_table res" and "length (rows res) = length (rows df)"
  shows "column (recalculate_metric df res (m, f)) m =
     (case eval_formula df f of
        Some vals \<Rightarrow> vals
      | None \<Rightarrow> if m \<in> set (columns res) then column res m
                else replicate (length (rows df)) (Num 0))"
proof (cases "eval_formula df f")
  case None
  then show ?thesis
    using assms by (simp add: recalculate_metric_def column_set_column_same)
next
  case (Some vs)
  then have "length vs = length (rows res)"
    using eval_formula_length assms(2) by simp
  then show ?thesis
    using assms Some by (simp add: recalculate_metric_def column_set_column_same)
qed

lemma recalculate_metric_column_other:
  assumes "wf_table res" and "length (rows res) = length (rows df)"
    and "c \<noteq> m" and "c \<in> set (columns res)"
  shows "column (recalculate_metric df res (m, f)) c = column res c"
proof (cases "eval_formula df f")
  case None
  then show ?thesis
    using assms by (simp add: recalculate_metric_def column_set_column_other)
next
  case (Some vs)
  then have "length vs = length (rows res)"
    using eval_formula_length assms(2) by simp
  then show ?thesis
    using assms Some by (simp add: recalculate_metric_def column_set_column_other)
qed

lemma foldl_recalculate_columns:
  "\<exists>news. columns (foldl (recalculate_metric df) res fs) = columns res @ news \<and>
          set news = set (map fst fs) - set (columns res)"
proof (induction fs arbitrary: res)
  case Nil
  show ?case by simp
next
  case (Cons mf fs)
  obtain m f where mf: "mf = (m, f)" by (cases mf)
  let ?res1 = "recalculate_metric df res (m, f)"
  obtain news where n: "columns (foldl (recalculate_metric df) ?res1 fs) = columns ?res1 @ news"
    and s: "set news = set (map fst fs) - set (columns ?res1)"
    using Cons.IH [of ?res1] by blast
  show ?case
  proof (cases "m \<in> set (columns res)")
    case True
    then show ?thesis
      using n s by (auto simp: mf recalculate_metric_columns)
  next
    case False
    have "columns (foldl (recalculate_metric df) res (mf # fs)) = columns res @ (m # news)"
      using n False by (simp add: mf recalculate_metric_columns)
    moreover have "set (m # news) = set (map fst (mf # fs)) - set (columns res)"
      using s False by (auto simp: mf recalculate_metric_columns)
    ultimately show ?thesis by blast
  qed
qed

lemma foldl_recalculate_wf:
  assumes "wf_table res" and "length (rows res) = length (rows df)"
  shows "wf_table (foldl (recalculate_metric df) res fs) \<and>
         length (rows (foldl (recalculate_metric df) res fs)) = length (rows df)"
  using assms
proof (induction fs arbitrary: res)
  case Nil
  then show ?case by simp
next
  case (Cons mf fs)
  show ?case
    using Cons.IH [of "recalculate_metric df res mf"]
      recalculate_metric_wf [OF Cons.prems, of mf]
    by simp
qed

lemma foldl_recalculate_column_other:
  assumes "wf_table res" and "length (rows res) = length (rows df)"
    and "c \<in> set (columns res)" and "c \<notin> set (map fst fs)"
  shows "column (foldl (recalculate_metric df) res fs) c = column res c"
  using assms
proof (induction fs arbitrary: res)
  case Nil
  then show ?case by simp
next
  case (Cons mf fs)
  obtain m f where mf: "mf = (m, f)" by (cases mf)
  let ?res1 = "recalculate_metric df res (m, f)"
  have wf1: "wf_table ?res1" and len1: "length (rows ?res1) = length (rows df)"
    using recalculate_metric_wf [OF Cons.prems(1,2), of "(m, f)"] by auto
  have c1: "c \<in> set (columns ?res1)"
    using Cons.prems(3) by (simp add: recalculate_metric_columns)
  have "column (foldl (recalculate_metric df) ?res1 fs) c = column ?res1 c"
    using Cons.IH [OF wf1 len1 c1] Cons.prems(4) by simp
  also have "\<dots> = column res c"
    using recalculate_metric_column_other [OF Cons.prems(1,2) _ Cons.prems(3), of m f]
      Cons.prems(4) by (auto simp: mf)
  finally show ?case by (simp add: mf)
qed

lemma foldl_recalculate_column_metric:
  assumes "wf_table res" and "length (rows res) = length (rows df)"
    and "distinct (map fst fs)" and "(m, f) \<in> set fs"
  shows "column (foldl (recalculate_metric df) res fs) m =
     (case eval_formula df f of
        Some vals \<Rightarrow> vals
      | None \<Rightarrow> if m \<in> set (columns res) then column res m
                else replicate (length (rows df)) (Num 0))"
  using assms
proof (induction fs arbitrary: res)
  case Nil
  then show ?case by simp
next
  case (Cons mf fs)
  obtain m' f' where mf: "mf = (m', f')" by (cases mf)
  let ?res1 = "recalculate_metric df res (m', f')"
  have wf1: "wf_table ?res1" and len1: "length (rows ?res1) = length (rows df)"
    using recalculate_metric_wf [OF Cons.prems(1,2), of "(m', f')"] by auto
  have d: "distinct (map fst fs)" and m'_new: "m' \<notin> set (map fst fs)"
    using Cons.prems(3) by (auto simp: mf)
  show ?case
  proof (cases "(m, f) = (m', f')")
    case True
    then have eq: "m = m'" "f = f'" by simp_all
    have m1: "m' \<in> set (columns ?res1)"
      by (simp add: recalculate_metric_columns)
    have "column (foldl (recalculate_metric df) ?res1 fs) m' = column ?res1 m'"
      using foldl_recalculate_column_other [OF wf1 len1 m1] m'_new by simp
    then show ?thesis
      unfolding eq mf
      using recalculate_metric_column_same [OF Cons.prems(1,2), of m' f']
      by simp
  next
    case False
    then have in_fs: "(m, f) \<in> set fs" using Cons.prems(4) by (auto simp: mf)
    then have ne: "m \<noteq> m'" using m'_new by force
    have mem: "m \<in> set (columns ?res1) \<longleftrightarrow> m \<in> set (columns res)"
      using ne by (simp add: recalculate_metric_columns)
    have col: "m \<in> set (columns res) \<Longrightarrow> column ?res1 m = column res m"
      using recalculate_metric_column_other [OF Cons.prems(1,2) ne] by simp
    show ?thesis
      using Cons.IH [OF wf1 len1 d in_fs] mem col
      by (auto simp: mf split: option.splits)
  qed
qed

lemma metrics_of_formulas: "map fst QMOOD_FORMULAS = QMOOD_METRICS"
  by (simp add: QMOOD_FORMULAS_def QMOOD_METRICS_def)

lemma distinct_metrics: "distinct (map fst QMOOD_FORMULAS)"
  by (simp add: QMOOD_FORMULAS_def)

lemma recalculate_column_metric:
  assumes "wf_table df" and "mf \<in> set QMOOD_FORMULAS"
  shows "column (recalculate_qmood_metrics df) (fst mf) = metric_values df mf"
proof -
  obtain m f where mf: "mf = (m, f)" by (cases mf)
  show ?thesis
    using foldl_recalculate_column_metric [OF assms(1) _ distinct_metrics, of df m f] assms(2)
    by (simp add: recalculate_qmood_metrics_def metric_values_def mf)
qed

lemma numeric_column_values:
  "numeric_column df col \<Longrightarrow>
   column df col = map (\<lambda>r. Num (num_of (r ! index_of col (columns df)))) (rows df)"
  by (auto simp: numeric_column_def column_def list_all_iff num_of_def split: cell.splits)

lemma those_map_Some_fun: "those (map (\<lambda>x. Some (f x)) xs) = Some (map f xs)"
  by (induction xs) simp_all

lemma binary_columns_num:
  "binary f (Column (map (\<lambda>r. Num (g r)) rs)) (Column (map (\<lambda>r. Num (h r)) rs)) =
     Some (Column (map (\<lambda>r. Num (f (g r) (h r))) rs))"
  by (simp add: zip_map_map zip_same_conv_map those_map_Some_fun comp_def case_prod_unfold)

lemma binary_number_column_num:
  "binary f (Number x) (Column (map (\<lambda>r. Num (h r)) rs)) =
     Some (Column (map (\<lambda>r. Num (f x (h r))) rs))"
  by (simp add: those_map_Some_fun comp_def)

lemma parse_understandability:
  "parse understandability_expr =
     Some (AAdd
       (ASub
         (ASub
           (AAdd
             (ASub
               (AAdd
                 (AMul (ANeg (ANum (33 / 100))) (ASubscript (AName ''df'') ''ANA''))
                 (AMul (ANum (33 / 100)) (ASubscript (AName ''df'') ''DAM'')))
               (AMul (ANum (33 / 100)) (ASubscript (AName ''df'') ''DCC'')))
             (AMul (ANum (33 / 100)) (ASubscript (AName ''df'') ''lcc'')))
           (AMul (ANum (33 / 100)) (ASubscript (AName ''df'') ''NOP'')))
         (AMul (ANum (33 / 100)) (ASubscript (AName ''df'') ''WMC'')))
       (AMul (ANeg (ANum (33 / 100))) (ASubscript (AName ''df'') ''DSC'')))"
  by code_simp

lemma eval_understandability:
  assumes "numeric_column df ''ANA''" and "numeric_column df ''DAM''"
    and "numeric_column df ''DCC''" and "numeric_column df ''lcc''"
    and "numeric_column df ''NOP''" and "numeric_column df ''WMC''"
    and "numeric_column df ''DSC''"
  shows "py_eval df understandability_expr =
     Some (Column (map (\<lambda>r. Num
        (- (33 / 100) * num_of (r ! index_of ''ANA'' (columns df))
         + 33 / 100 * num_of (r ! index_of ''DAM'' (columns df))
         - 33 / 100 * num_of (r ! index_of ''DCC'' (columns df))
         + 33 / 100 * num_of (r ! index_of ''lcc'' (columns df))
         - 33 / 100 * num_of (r ! index_of ''NOP'' (columns df))
         - 33 / 100 * num_of (r ! index_of ''WMC'' (columns df))
         - 33 / 100 * num_of (r ! index_of ''DSC'' (columns df)))) (rows df)))"
proof -
  have mem: "''ANA'' \<in> set (columns df)" "''DAM'' \<in> set (columns df)"
    "''DCC'' \<in> set (columns df)" "''lcc'' \<in> set (columns df)"
    "''NOP'' \<in> set (columns df)" "''WMC'' \<in> set (columns df)"
    "''DSC'' \<in> set (columns df)"
    using assms by (simp_all add: numeric_column_def)
  show ?thesis
    unfolding py_eval_def parse_understandability
    by (simp add: mem numeric_column_values [OF assms(1)] numeric_column_values [OF assms(2)]
        numeric_column_values [OF assms(3)] numeric_column_values [OF assms(4)]
        numeric_column_values [OF assms(5)] numeric_column_values [OF assms(6)]
        numeric_column_values [OF assms(7)]
        binary_columns_num binary_number_column_num del: binary.simps)
qed

declare re_sub_from.simps [simp del]

lemma re_sub_from_chars:
  "set (re_sub_from col repl prev s) \<subseteq> set s \<union> set repl"
proof (induction col repl prev s rule: re_sub_from.induct)
  case (1 col repl prev s)
  show ?case
  proof (cases "col \<noteq> [] \<and> matches_here col prev s")
    case True
    then have "set (re_sub_from col repl (Some (last col)) (drop (length col) s))
        \<subseteq> set (drop (length col) s) \<union> set repl"
      using "1.IH"(1) by simp
    moreover have "set (drop (length col) s) \<subseteq> set s"
      by (rule set_drop_subset)
    ultimately show ?thesis
      using True by (subst re_sub_from.simps) auto
  next
    case False
    show ?thesis
    proof (cases s)
      case Nil
      then show ?thesis
        using False by (subst re_sub_from.simps) auto
    next
      case (Cons c cs)
      then have "set (re_sub_from col repl (Some c) cs) \<subseteq> set cs \<union> set repl"
        using "1.IH"(2) False by simp
      then show ?thesis
        using False Cons by (subst re_sub_from.simps) auto
    qed
  qed
qed

lemma sublist_chars: "sublist xs ys \<Longrightarrow> set xs \<subseteq> set ys"
  by (auto simp: sublist_def)

lemma df_ref_chars: "set (df_ref col) = set col \<union> reference_chars"
  by (auto simp: df_ref_def reference_chars_def)

lemma substitute_step_chars:
  "set (if sublist col expr then re_sub col expr else expr) \<subseteq> set expr \<union> reference_chars"
  using re_sub_from_chars [of col "df_ref col" None expr] sublist_chars [of col expr]
  by (auto simp: re_sub_def df_ref_chars)

lemma substitute_columns_chars:
  "set (substitute_columns cols formula) \<subseteq> set formula \<union> reference_chars"
proof (induction cols arbitrary: formula)
  case Nil
  show ?case by (simp add: substitute_columns_def)
next
  case (Cons c cs)
  let ?e = "if sublist c formula then re_sub c formula else formula"
  have "set (substitute_columns cs ?e) \<subseteq> set ?e \<union> reference_chars"
    using Cons.IH [of ?e] .
  moreover have "set ?e \<subseteq> set formula \<union> reference_chars"
    by (rule substitute_step_chars)
  moreover have "substitute_columns (c # cs) formula = substitute_columns cs ?e"
    by (simp add: substitute_columns_def)
  ultimately show ?case by auto
qed

lemma substitute_columns_append:
  "substitute_columns (cs @ ds) formula = substitute_columns ds (substitute_columns cs formula)"
  by (simp add: substitute_columns_def)

lemma substitute_columns_foreign:
  assumes "\<forall>m \<in> set ms. \<not> set m \<subseteq> set expr"
  shows "substitute_columns ms expr = expr"
  using assms
proof (induction ms)
  case Nil
  show ?case by (simp add: substitute_columns_def)
next
  case (Cons m ms)
  have "\<not> sublist m expr"
    using Cons.prems sublist_chars [of m expr] by auto
  then have "substitute_columns (m # ms) expr = substitute_columns ms expr"
    by (simp add: substitute_columns_def)
  then show ?case using Cons by simp
qed

lemma set_dropWhile_subset: "set (dropWhile P xs) \<subseteq> set xs"
  by (auto dest: set_dropWhileD)

lemma set_takeWhile_subset: "set (takeWhile P xs) \<subseteq> set xs"
  by (auto dest: set_takeWhileD)

lemma dropWhile_Cons_subset: "dropWhile P xs = y # ys \<Longrightarrow> set ys \<subseteq> set xs"
  using set_dropWhile_subset [of P xs] by auto

lemma lex_string_chars:
  "lex e = Some ts \<Longrightarrow> TStr s \<in> set ts \<Longrightarrow> set s \<subseteq> set e"
proof (induction e arbitrary: ts rule: lex.induct)
  case 1
  then show ?case by simp
next
  case (2 c cs)
  show ?case
  proof (cases "c = CHR '' ''")
    case True
    then show ?thesis using 2 by auto
  next
    case sp: False
    show ?thesis
    proof (cases "is_digit c")
      case True
      let ?r = "dropWhile is_digit cs"
      show ?thesis
      proof (cases ?r)
        case Nil
        then have "lex (c # cs) = Some [TNum (decimal (c # takeWhile is_digit cs) [])]"
          using sp True by (simp add: Let_def del: dropWhile_eq_Nil_conv)
        then show ?thesis using "2.prems" by auto
      next
        case (Cons d r')
        have sub: "set r' \<subseteq> set cs" "set ?r \<subseteq> set cs"
          using dropWhile_Cons_subset [OF Cons] set_dropWhile_subset [of is_digit cs] by auto
        show ?thesis
        proof (cases "d = CHR ''.''")
          case dot: True
          from "2.prems" sp True Cons dot obtain ts' where
            l: "lex (dropWhile is_digit r') = Some ts'" and s: "TStr s \<in> set ts'"
            by (auto simp: Let_def)
          have "set s \<subseteq> set (dropWhile is_digit r')"
            using "2.IH"(2) [OF sp True refl refl Cons dot l s] .
          then show ?thesis
            using sub set_dropWhile_subset [of is_digit r'] by auto
        next
          case nodot: False
          from "2.prems" sp True Cons nodot obtain ts' where
            l: "lex ?r = Some ts'" and s: "TStr s \<in> set ts'"
            by (auto simp: Let_def)
          have "set s \<subseteq> set ?r"
            using "2.IH"(3) [OF sp True refl refl Cons nodot l s] .
          then show ?thesis using sub by auto
        qed
      qed
    next
      case nd: False
      show ?thesis
      proof (cases "c = CHR ''.''")
        case True
        from "2.prems" sp nd True obtain ts' where
          ne: "takeWhile is_digit cs \<noteq> []"
          and l: "lex (dropWhile is_digit cs) = Some ts'" and s: "TStr s \<in> set ts'"
          by (auto split: if_splits)
        have "set s \<subseteq> set (dropWhile is_digit cs)"
          using "2.IH"(4) [OF sp nd True ne l s] .
        then show ?thesis using set_dropWhile_subset [of is_digit cs] by auto
      next
        case ndot: False
        show ?thesis
        proof (cases "is_name_start c")
          case True
          from "2.prems" sp nd ndot True obtain ts' where
            l: "lex (dropWhile is_word_char cs) = Some ts'" and s: "TStr s \<in> set ts'"
            by auto
          have "set s \<subseteq> set (dropWhile is_word_char cs)"
            using "2.IH"(5) [OF sp nd ndot True l s] .
          then show ?thesis using set_dropWhile_subset [of is_word_char cs] by auto
        next
          case nn: False
          show ?thesis
          proof (cases "c = quote")
            case True
            from "2.prems" sp nd ndot nn True obtain q r ts' where
              d: "dropWhile (\<lambda>x. x \<noteq> quote) cs = q # r"
              and l: "lex r = Some ts'"
              and s: "s = takeWhile (\<lambda>x. x \<noteq> quote) cs \<or> TStr s \<in> set ts'"
              by (auto split: list.splits)
            have "TStr s \<in> set ts' \<Longrightarrow> set s \<subseteq> set r"
              using "2.IH"(6) [OF sp nd ndot nn True d l] .
            then show ?thesis
              using s dropWhile_Cons_subset [OF d]
                set_takeWhile_subset [of "\<lambda>x. x \<noteq> quote" cs] by auto
          next
            case nq: False
            note neg = sp nd ndot nn nq
            show ?thesis
            proof (cases "c = CHR ''+''")
              case True
              have "lex (c # cs) = map_option (Cons TPlus) (lex cs)"
                using neg True by simp
              then obtain ts' where l: "lex cs = Some ts'" and s: "TStr s \<in> set ts'"
                using "2.prems" by auto
              have "set s \<subseteq> set cs"
                using "2.IH"(7) [OF neg True l s] .
              then show ?thesis by auto
            next
              case np: False
              show ?thesis
              proof (cases "c = CHR ''-''")
                case True
                have "lex (c # cs) = map_option (Cons TMinus) (lex cs)"
                  using neg np True by simp
                then obtain ts' where l: "lex cs = Some ts'" and s: "TStr s \<in> set ts'"
                  using "2.prems" by auto
                have "set s \<subseteq> set cs"
                  using "2.IH"(8) [OF neg np True l s] .
                then show ?thesis by auto
              next
                case nm: False
                show ?thesis
                proof (cases "c = CHR ''*''")
                  case True
                  show ?thesis
                  proof (cases cs)
                    case Nil
                    have "lex (c # cs) = Some [TStar]"
                      using neg np nm True Nil by simp
                    then show ?thesis using "2.prems" by auto
                  next
                    case (Cons d ds)
                    show ?thesis
                    proof (cases "d = CHR ''*''")
                      case True
                      have "lex (c # cs) = None"
                        using neg np nm \<open>c = CHR ''*''\<close> Cons True by simp
                      then show ?thesis using "2.prems" by simp
                    next
                      case nstar: False
                      have "lex (c # cs) = map_option (Cons TStar) (lex cs)"
                        using neg np nm True Cons nstar by simp
                      then obtain ts' where l: "lex cs = Some ts'" and s: "TStr s \<in> set ts'"
                        using "2.prems" by auto
                      have "set s \<subseteq> set cs"
                        using "2.IH"(9) [OF neg np nm True Cons nstar l s] .
                      then show ?thesis by auto
                    qed
                  qed
                next
                  case ns: False
                  show ?thesis
                  proof (cases "c = CHR ''[''")
                    case True
                    have "lex (c # cs) = map_option (Cons TLBracket) (lex cs)"
                      using neg np nm ns True by simp
                    then obtain ts' where l: "lex cs = Some ts'" and s: "TStr s \<in> set ts'"
                      using "2.prems" by auto
                    have "set s \<subseteq> set cs"
                      using "2.IH"(10) [OF neg np nm ns True l s] .
                    then show ?thesis by auto
                  next
                    case nl: False
                    show ?thesis
                    proof (cases "c = CHR '']''")
                      case True
                      have "lex (c # cs) = map_option (Cons TRBracket) (lex cs)"
                        using neg np nm ns nl True by simp
                      then obtain ts' where l: "lex cs = Some ts'" and s: "TStr s \<in> set ts'"
                        using "2.prems" by auto
                      have "set s \<subseteq> set cs"
                        using "2.IH"(11) [OF neg np nm ns nl True l s] .
                      then show ?thesis by auto
                    next
                      case False
                      have "lex (c # cs) = None"
                        using neg np nm ns nl False by simp
                      then show ?thesis using "2.prems" by simp
                    qed
                  qed
                qed
              qed
            qed
          qed
        qed
      qed
    qed
  qed
qed

lemma keys_apply_signs [simp]: "keys (apply_signs sg a) = keys a"
  by (induction sg) (simp_all add: apply_signs_def)

lemma keys_close_factor: "keys (close_factor st a) \<subseteq> state_keys st \<union> keys a"
  by (auto simp: close_factor_def state_keys_def Let_def split: option.splits)

lemma keys_close_term: "keys (close_term st a) \<subseteq> state_keys st \<union> keys a"
  using keys_close_factor [of st a]
  by (auto simp: close_term_def state_keys_def Let_def split: option.splits)

lemma token_keys_Cons:
  "token_keys (TStr s # ts) = insert s (token_keys ts)"
  "token_keys (TNum x # ts) = token_keys ts"
  "token_keys (TName n # ts) = token_keys ts"
  "token_keys (TPlus # ts) = token_keys ts"
  "token_keys (TMinus # ts) = token_keys ts"
  "token_keys (TStar # ts) = token_keys ts"
  "token_keys (TLBracket # ts) = token_keys ts"
  "token_keys (TRBracket # ts) = token_keys ts"
  "token_keys [] = {}"
  by (auto simp: token_keys_def)

lemma parse_tokens_keys:
  "parse_tokens st ts = Some a \<Longrightarrow> keys a \<subseteq> state_keys st \<union> token_keys ts"
proof (induction st ts arbitrary: a rule: parse_tokens.induct)
  case (1 st)
  then obtain b where b: "operand st = Some b" and a: "a = close_term st b"
    by (auto split: option.splits)
  have "keys b \<subseteq> state_keys st"
    using b by (auto simp: state_keys_def)
  then show ?case
    using keys_close_term [of st b] a by auto
next
  case (2 st k ts)
  from "2.prems" obtain b where b: "operand st = Some b"
    and p: "parse_tokens (st\<lparr>operand := Some (ASubscript b k)\<rparr>) ts = Some a"
    by (auto split: option.splits)
  have "keys a \<subseteq> state_keys (st\<lparr>operand := Some (ASubscript b k)\<rparr>) \<union> token_keys ts"
    using "2.IH" [OF b p] .
  then show ?case
    using b by (auto simp: state_keys_def token_keys_Cons)
next
  case (5 st x ts)
  from "5.prems" have b: "operand st = None"
    and p: "parse_tokens (st\<lparr>operand := Some (ANum x)\<rparr>) ts = Some a"
    by (auto split: option.splits)
  show ?case
    using "5.IH" [OF b p] b by (auto simp: state_keys_def token_keys_Cons)
next
  case (6 st n ts)
  from "6.prems" have b: "operand st = None"
    and p: "parse_tokens (st\<lparr>operand := Some (AName n)\<rparr>) ts = Some a"
    by (auto split: option.splits)
  show ?case
    using "6.IH" [OF b p] b by (auto simp: state_keys_def token_keys_Cons)
next
  case (7 st s ts)
  from "7.prems" have b: "operand st = None"
    and p: "parse_tokens (st\<lparr>operand := Some (AStr s)\<rparr>) ts = Some a"
    by (auto split: option.splits)
  show ?case
    using "7.IH" [OF b p] b by (auto simp: state_keys_def token_keys_Cons)
next
  case (8 st ts)
  from "8.prems" obtain b where b: "operand st = Some b"
    and p: "parse_tokens (st\<lparr>product := Some (close_factor st b), signs := [],
              operand := None\<rparr>) ts = Some a"
    by (auto split: option.splits)
  have "keys a \<subseteq> state_keys (st\<lparr>product := Some (close_factor st b), signs := [],
              operand := None\<rparr>) \<union> token_keys ts"
    using "8.IH" [OF b p] .
  then show ?case
    using b keys_close_factor [of st b]
    by (auto simp: state_keys_def token_keys_Cons split: option.splits)
next
  case (9 st ts)
  show ?case
  proof (cases "operand st")
    case None
    then have p: "parse_tokens (st\<lparr>signs := signs st @ [False]\<rparr>) ts = Some a"
      using "9.prems" by simp
    show ?thesis
      using "9.IH"(1) [OF None p] by (auto simp: state_keys_def token_keys_Cons)
  next
    case (Some b)
    then have p: "parse_tokens (st\<lparr>total := Some (close_term st b, False), product := None,
                           signs := [], operand := None\<rparr>) ts = Some a"
      using "9.prems" by simp
    have "keys a \<subseteq> state_keys (st\<lparr>total := Some (close_term st b, False), product := None,
                           signs := [], operand := None\<rparr>) \<union> token_keys ts"
      using "9.IH"(2) [OF Some p] .
    then show ?thesis
      using Some keys_close_term [of st b]
      by (auto simp: state_keys_def token_keys_Cons split: option.splits)
  qed
next
  case (10 st ts)
  show ?case
  proof (cases "operand st")
    case None
    then have p: "parse_tokens (st\<lparr>signs := signs st @ [True]\<rparr>) ts = Some a"
      using "10.prems" by simp
    show ?thesis
      using "10.IH"(1) [OF None p] by (auto simp: state_keys_def token_keys_Cons)
  next
    case (Some b)
    then have p: "parse_tokens (st\<lparr>total := Some (close_term st b, True), product := None,
                           signs := [], operand := None\<rparr>) ts = Some a"
      using "10.prems" by simp
    have "keys a \<subseteq> state_keys (st\<lparr>total := Some (close_term st b, True), product := None,
                           signs := [], operand := None\<rparr>) \<union> token_keys ts"
      using "10.IH"(2) [OF Some p] .
    then show ?thesis
      using Some keys_close_term [of st b]
      by (auto simp: state_keys_def token_keys_Cons split: option.splits)
  qed
qed simp_all

lemma parse_keys_chars:
  assumes "parse expr = Some a" and "k \<in> keys a"
  shows "set k \<subseteq> set expr"
proof -
  from assms(1) obtain ts where l: "lex expr = Some ts"
    and p: "parse_tokens \<lparr>total = None, product = None, signs = [], operand = None\<rparr> ts = Some a"
    by (auto simp: parse_def split: option.splits)
  have "keys a \<subseteq> token_keys ts"
    using parse_tokens_keys [OF p] by (simp add: state_keys_def)
  then have "TStr k \<in> set ts" using assms(2) by (auto simp: token_keys_def)
  then show ?thesis using lex_string_chars [OF l] by blast
qed

lemma eval_ast_cong:
  assumes "\<And>k. k \<in> keys a \<Longrightarrow>
             (k \<in> set (columns df1) \<longleftrightarrow> k \<in> set (columns df2)) \<and>
             (k \<in> set (columns df1) \<longrightarrow> column df1 k = column df2 k)"
  shows "eval_ast df1 a = eval_ast df2 a"
  using assms
proof (induction a)
  case (ASubscript a k)
  have "eval_ast df1 a = eval_ast df2 a"
    using ASubscript by simp
  moreover have "(k \<in> set (columns df1) \<longleftrightarrow> k \<in> set (columns df2)) \<and>
      (k \<in> set (columns df1) \<longrightarrow> column df1 k = column df2 k)"
    using ASubscript.prems by simp
  ultimately show ?case
    by (auto split: option.splits pyval.splits)
qed (simp_all cong: option.case_cong)

lemma metric_names_foreign:
  "\<forall>mf \<in> set QMOOD_FORMULAS. CHR ''i'' \<in> set (fst mf)"
  "\<forall>mf \<in> set QMOOD_FORMULAS. CHR ''i'' \<notin> set (snd mf) \<union> reference_chars"
  by (simp_all add: QMOOD_FORMULAS_def reference_chars_def quote_def)

lemma metric_name_not_in_expr:
  assumes "mf \<in> set QMOOD_FORMULAS" and "m \<in> set QMOOD_METRICS"
  shows "\<not> set m \<subseteq> set (substitute_columns cols (snd mf))"
proof -
  obtain mf' where "mf' \<in> set QMOOD_FORMULAS" and "m = fst mf'"
    using assms(2) unfolding metrics_of_formulas [symmetric] by auto
  then have "CHR ''i'' \<in> set m"
    using metric_names_foreign(1) by blast
  moreover have "CHR ''i'' \<notin> set (substitute_columns cols (snd mf))"
    using substitute_columns_chars [of cols "snd mf"] metric_names_foreign(2) assms(1)
    by blast
  ultimately show ?thesis by blast
qed

lemma recalculated_table:
  assumes "wf_table df"
  shows "wf_table (recalculate_qmood_metrics df)"
    and "length (rows (recalculate_qmood_metrics df)) = length (rows df)"
    and "\<exists>news. columns (recalculate_qmood_metrics df) = columns df @ news \<and>
           set news = set QMOOD_METRICS - set (columns df)"
    and "c \<in> set (columns df) \<Longrightarrow> c \<notin> set QMOOD_METRICS \<Longrightarrow>
           column (recalculate_qmood_metrics df) c = column df c"
proof -
  show "wf_table (recalculate_qmood_metrics df)"
    and "length (rows (recalculate_qmood_metrics df)) = length (rows df)"
    using foldl_recalculate_wf [OF assms, of df QMOOD_FORMULAS]
    by (simp_all add: recalculate_qmood_metrics_def)
  show "\<exists>news. columns (recalculate_qmood_metrics df) = columns df @ news \<and>
           set news = set QMOOD_METRICS - set (columns df)"
    using foldl_recalculate_columns [of df df QMOOD_FORMULAS]
    by (simp add: recalculate_qmood_metrics_def metrics_of_formulas)
  show "c \<in> set (columns df) \<Longrightarrow> c \<notin> set QMOOD_METRICS \<Longrightarrow>
           column (recalculate_qmood_metrics df) c = column df c"
    using foldl_recalculate_column_other [OF assms, of df c QMOOD_FORMULAS]
    by (simp add: recalculate_qmood_metrics_def metrics_of_formulas)
qed

lemma eval_formula_recalculated:
  assumes "wf_table df" and "mf \<in> set QMOOD_FORMULAS"
  shows "eval_formula (recalculate_qmood_metrics df) (snd mf) = eval_formula df (snd mf)"
proof -
  let ?R = "recalculate_qmood_metrics df"
  let ?e = "substitute_columns (columns df) (snd mf)"
  obtain news where cols: "columns ?R = columns df @ news"
    and news: "set news = set QMOOD_METRICS - set (columns df)"
    using recalculated_table(3) [OF assms(1)] by blast
  have "\<forall>m \<in> set news. \<not> set m \<subseteq> set ?e"
    using metric_name_not_in_expr [OF assms(2)] news by blast
  then have subst: "substitute_columns (columns ?R) (snd mf) = ?e"
    unfolding cols substitute_columns_append by (rule substitute_columns_foreign)
  have "py_eval ?R ?e = py_eval df ?e"
  proof (cases "parse ?e")
    case None
    then show ?thesis by (simp add: py_eval_def)
  next
    case (Some a)
    have "eval_ast ?R a = eval_ast df a"
    proof (rule eval_ast_cong)
      fix k
      assume "k \<in> keys a"
      then have "set k \<subseteq> set ?e" using parse_keys_chars [OF Some] by blast
      then have nm: "k \<notin> set QMOOD_METRICS"
        using metric_name_not_in_expr [OF assms(2), of k "columns df"] by blast
      then have mem: "k \<in> set (columns ?R) \<longleftrightarrow> k \<in> set (columns df)"
        using cols news by auto
      moreover have "k \<in> set (columns df) \<Longrightarrow> column ?R k = column df k"
        using recalculated_table(4) [OF assms(1)] nm by blast
      ultimately show "(k \<in> set (columns ?R) \<longleftrightarrow> k \<in> set (columns df)) \<and>
             (k \<in> set (columns ?R) \<longrightarrow> column ?R k = column df k)"
        by blast
    qed
    then show ?thesis using Some by (simp add: py_eval_def)
  qed
  then show ?thesis
    by (simp add: eval_formula_def subst recalculated_table(2) [OF assms(1)]
        split: option.splits pyval.splits)
qed

lemma recalculate_metric_fixed:
  assumes "wf_table df" and "mf \<in> set QMOOD_FORMULAS"
  shows "recalculate_metric (recalculate_qmood_metrics df) (recalculate_qmood_metrics df) mf
           = recalculate_qmood_metrics df"
proof -
  let ?R = "recalculate_qmood_metrics df"
  obtain m f where mf: "mf = (m, f)" by (cases mf)
  have wfR: "wf_table ?R" using recalculated_table(1) [OF assms(1)] .
  have "m \<in> set QMOOD_METRICS"
    using assms(2) unfolding metrics_of_formulas [symmetric] mf by force
  then have mR: "m \<in> set (columns ?R)"
    using recalculated_table(3) [OF assms(1)] by auto
  have ev: "eval_formula ?R f = eval_formula df f"
    using eval_formula_recalculated [OF assms] by (simp add: mf)
  show ?thesis
  proof (cases "eval_formula df f")
    case None
    then show ?thesis
      using mR ev by (simp add: recalculate_metric_def mf)
  next
    case (Some vs)
    have "column ?R m = vs"
      using recalculate_column_metric [OF assms] Some by (simp add: metric_values_def mf)
    then have "set_column ?R m vs = ?R"
      using set_column_same_values [OF wfR mR] by simp
    then show ?thesis
      using ev Some by (simp add: recalculate_metric_def mf)
  qed
qed

lemma foldl_fixed:
  "(\<And>x. x \<in> set xs \<Longrightarrow> f a x = a) \<Longrightarrow> foldl f a xs = a"
  by (induction xs) simp_all























section \<open>Claims about the recalculation\<close>

text \<open>
  C5. When the evaluation of a metric's substituted formula fails, the metric's column keeps
  its values if the table had the column, and is 0.0 in every row otherwise; every other
  metric's column holds what that metric's own round gives (\<open>metric_values\<close>), whether the
  metric comes before or after the failing one.
\<close>

theorem failed_metric_falls_back:
  assumes "wf_table df" and "(metric, formula) \<in> set QMOOD_FORMULAS"
    and "eval_formula df formula = None"
  shows "(metric \<in> set (columns df) \<longrightarrow>
            column (recalculate_qmood_metrics df) metric = column df metric)
       \<and> (metric \<notin> set (columns df) \<longrightarrow>
            column (recalculate_qmood_metrics df) metric = replicate (length (rows df)) (Num 0))
       \<and> (\<forall>mf \<in> set QMOOD_FORMULAS. fst mf \<noteq> metric \<longrightarrow>
            column (recalculate_qmood_metrics df) (fst mf) = metric_values df mf)"
proof -
  have "column (recalculate_qmood_metrics df) metric = metric_values df (metric, formula)"
    using recalculate_column_metric [OF assms(1,2)] by simp
  then show ?thesis
    using assms(3) recalculate_column_metric [OF assms(1)]
    by (simp add: metric_values_def)
qed

theorem failed_metric_falls_back_witness:
  "column (recalculate_qmood_metrics metrics2) ''Flexibility'' = [Num 7, Num 8]
   \<and> column (recalculate_qmood_metrics metrics2) ''Functionality'' = [Num 0, Num 0]
   \<and> column (recalculate_qmood_metrics metrics2) ''Reusability'' = [Num 1, Num 1]"
proof -
  have wf: "wf_table metrics2" by code_simp
  have f1: "(''Reusability'', ''-0.25 * DCC + 0.25 * lcc + 0.5 * CIS + 0.5 * DSC'') \<in> set QMOOD_FORMULAS"
    and f2: "(''Flexibility'', ''0.25 * DAM - 0.25 * DCC + 0.5 * MOA + 0.5 * NOP'') \<in> set QMOOD_FORMULAS"
    and f3: "(''Functionality'', ''0.12 * lcc + 0.22 * NOP + 0.22 * CIS + 0.22 * DSC + 0.22 * NOH'')
               \<in> set QMOOD_FORMULAS"
    by (simp_all add: QMOOD_FORMULAS_def)
  have e2: "eval_formula metrics2 ''0.25 * DAM - 0.25 * DCC + 0.5 * MOA + 0.5 * NOP'' = None"
    by code_simp
  have e3: "eval_formula metrics2 ''0.12 * lcc + 0.22 * NOP + 0.22 * CIS + 0.22 * DSC + 0.22 * NOH'' = None"
    by code_simp
  have c2: "''Flexibility'' \<in> set (columns metrics2)" "column metrics2 ''Flexibility'' = [Num 7, Num 8]"
    by code_simp+
  have c3: "''Functionality'' \<notin> set (columns metrics2)" "length (rows metrics2) = 2"
    by code_simp+
  have v1: "metric_values metrics2 (''Reusability'', ''-0.25 * DCC + 0.25 * lcc + 0.5 * CIS + 0.5 * DSC'')
      = [Num 1, Num 1]"
    by code_simp
  have ne: "''Reusability'' \<noteq> ''Flexibility''" by simp
  have kept: "column (recalculate_qmood_metrics metrics2) ''Flexibility'' = [Num 7, Num 8]"
    using failed_metric_falls_back [OF wf f2 e2] c2 by simp
  have zero: "column (recalculate_qmood_metrics metrics2) ''Functionality'' = [Num 0, Num 0]"
    using failed_metric_falls_back [OF wf f3 e3] c3 by (simp add: numeral_2_eq_2)
  have other: "column (recalculate_qmood_metrics metrics2) ''Reusability'' = [Num 1, Num 1]"
    using failed_metric_falls_back [OF wf f2 e2] f1 ne v1 by fastforce
  show ?thesis using kept zero other by simp
qed

text \<open>
  C6 (as amended). The substitution runs over every column of the table, so the claim needs
  that it turns the formula into the expression with exactly the seven references
  (\<open>understandability_expr\<close>): no other column name occurs in the formula text as a whole
  token. Then, on a well-formed table whose columns ANA, DAM, DCC, lcc, NOP, WMC and DSC are
  numeric, the recalculated Understandability of row \<open>i\<close> is
  \<open>-0.33 ANA + 0.33 DAM - 0.33 DCC + 0.33 lcc - 0.33 NOP - 0.33 WMC - 0.33 DSC\<close> on the
  values of that row.
\<close>

theorem understandability_formula:
  assumes "wf_table df"
    and "(''Understandability'', formula) \<in> set QMOOD_FORMULAS"
    and "substitute_columns (columns df) formula = understandability_expr"
    and "numeric_column df ''ANA''" and "numeric_column df ''DAM''"
    and "numeric_column df ''DCC''" and "numeric_column df ''lcc''"
    and "numeric_column df ''NOP''" and "numeric_column df ''WMC''"
    and "numeric_column df ''DSC''"
    and "i < length (rows df)"
  shows "column (recalculate_qmood_metrics df) ''Understandability'' ! i =
     Num (- (33 / 100) * num_at df i ''ANA'' + 33 / 100 * num_at df i ''DAM''
          - 33 / 100 * num_at df i ''DCC'' + 33 / 100 * num_at df i ''lcc''
          - 33 / 100 * num_at df i ''NOP'' - 33 / 100 * num_at df i ''WMC''
          - 33 / 100 * num_at df i ''DSC'')"
proof -
  have "eval_formula df formula = Some (map (\<lambda>r. Num
        (- (33 / 100) * num_of (r ! index_of ''ANA'' (columns df))
         + 33 / 100 * num_of (r ! index_of ''DAM'' (columns df))
         - 33 / 100 * num_of (r ! index_of ''DCC'' (columns df))
         + 33 / 100 * num_of (r ! index_of ''lcc'' (columns df))
         - 33 / 100 * num_of (r ! index_of ''NOP'' (columns df))
         - 33 / 100 * num_of (r ! index_of ''WMC'' (columns df))
         - 33 / 100 * num_of (r ! index_of ''DSC'' (columns df)))) (rows df))"
    unfolding eval_formula_def assms(3)
      eval_understandability [OF assms(4) assms(5) assms(6) assms(7) assms(8) assms(9) assms(10)]
    by simp
  then show ?thesis
    using recalculate_column_metric [OF assms(1,2)] assms(11)
    by (simp add: metric_values_def num_at_def)
qed

theorem understandability_formula_witness:
  "column (recalculate_qmood_metrics metrics1) ''Understandability'' ! 0 = Num (- (33 / 10))
   \<and> column (recalculate_qmood_metrics metrics1) ''Understandability'' ! 1 = Num (- (99 / 50))"
proof -
  let ?f = "''-0.33 * ANA + 0.33 * DAM - 0.33 * DCC + 0.33 * lcc - 0.33 * NOP - 0.33 * WMC + - 0.33 * DSC''"
  have wf: "wf_table metrics1" by code_simp
  have f: "(''Understandability'', ?f) \<in> set QMOOD_FORMULAS"
    by (simp add: QMOOD_FORMULAS_def)
  have s: "substitute_columns (columns metrics1) ?f = understandability_expr" by code_simp
  have n: "numeric_column metrics1 ''ANA''" "numeric_column metrics1 ''DAM''"
    "numeric_column metrics1 ''DCC''" "numeric_column metrics1 ''lcc''"
    "numeric_column metrics1 ''NOP''" "numeric_column metrics1 ''WMC''"
    "numeric_column metrics1 ''DSC''"
    by code_simp+
  have i: "0 < length (rows metrics1)" "1 < length (rows metrics1)" by code_simp+
  have v0: "- (33 / 100) * num_at metrics1 0 ''ANA'' + 33 / 100 * num_at metrics1 0 ''DAM''
          - 33 / 100 * num_at metrics1 0 ''DCC'' + 33 / 100 * num_at metrics1 0 ''lcc''
          - 33 / 100 * num_at metrics1 0 ''NOP'' - 33 / 100 * num_at metrics1 0 ''WMC''
          - 33 / 100 * num_at metrics1 0 ''DSC'' = - (33 / 10)"
    by code_simp
  have v1: "- (33 / 100) * num_at metrics1 1 ''ANA'' + 33 / 100 * num_at metrics1 1 ''DAM''
          - 33 / 100 * num_at metrics1 1 ''DCC'' + 33 / 100 * num_at metrics1 1 ''lcc''
          - 33 / 100 * num_at metrics1 1 ''NOP'' - 33 / 100 * num_at metrics1 1 ''WMC''
          - 33 / 100 * num_at metrics1 1 ''DSC'' = - (99 / 50)"
    by code_simp
  show ?thesis
    using understandability_formula [OF wf f s n i(1)] understandability_formula [OF wf f s n i(2)]
    unfolding v0 v1 by simp
qed

text \<open>
  C6 as stated fails: a table with the seven numeric columns and one more column named
  \<open>33\<close>. The name occurs in the literal \<open>0.33\<close> between two word boundaries, the
  substitution writes \<open>0.df['33']\<close>, the expression no longer parses, and Understandability
  falls back to 0.0 while the formula gives \<open>-0.99\<close>.
\<close>

theorem understandability_formula_counterexample:
  "wf_table metrics3
   \<and> numeric_column metrics3 ''ANA'' \<and> numeric_column metrics3 ''DAM''
   \<and> numeric_column metrics3 ''DCC'' \<and> numeric_column metrics3 ''lcc''
   \<and> numeric_column metrics3 ''NOP'' \<and> numeric_column metrics3 ''WMC''
   \<and> numeric_column metrics3 ''DSC''
   \<and> column (recalculate_qmood_metrics metrics3) ''Understandability'' ! 0 = Num 0
   \<and> - (33 / 100) * num_at metrics3 0 ''ANA'' + 33 / 100 * num_at metrics3 0 ''DAM''
          - 33 / 100 * num_at metrics3 0 ''DCC'' + 33 / 100 * num_at metrics3 0 ''lcc''
          - 33 / 100 * num_at metrics3 0 ''NOP'' - 33 / 100 * num_at metrics3 0 ''WMC''
          - 33 / 100 * num_at metrics3 0 ''DSC'' = - (99 / 100)"
proof -
  let ?f = "''-0.33 * ANA + 0.33 * DAM - 0.33 * DCC + 0.33 * lcc - 0.33 * NOP - 0.33 * WMC + - 0.33 * DSC''"
  have wf: "wf_table metrics3" by code_simp
  have n: "numeric_column metrics3 ''ANA''" "numeric_column metrics3 ''DAM''"
    "numeric_column metrics3 ''DCC''" "numeric_column metrics3 ''lcc''"
    "numeric_column metrics3 ''NOP''" "numeric_column metrics3 ''WMC''"
    "numeric_column metrics3 ''DSC''"
    by code_simp+
  have f: "(''Understandability'', ?f) \<in> set QMOOD_FORMULAS"
    by (simp add: QMOOD_FORMULAS_def)
  have s: "substitute_columns (columns metrics3) ?f =
      ''-0.df['33'] * df['ANA'] + 0.df['33'] * df['DAM'] - 0.df['33'] * df['DCC'] + 0.df['33'] * df['lcc'] - 0.df['33'] * df['NOP'] - 0.df['33'] * df['WMC'] + - 0.df['33'] * df['DSC']''"
    by code_simp
  have p: "parse ''-0.df['33'] * df['ANA'] + 0.df['33'] * df['DAM'] - 0.df['33'] * df['DCC'] + 0.df['33'] * df['lcc'] - 0.df['33'] * df['NOP'] - 0.df['33'] * df['WMC'] + - 0.df['33'] * df['DSC']'' = None"
    by code_simp
  have e: "eval_formula metrics3 ?f = None"
    by (simp add: eval_formula_def py_eval_def s p)
  have nc: "''Understandability'' \<notin> set (columns metrics3)" "length (rows metrics3) = 1"
    by code_simp+
  have col: "column (recalculate_qmood_metrics metrics3) ''Understandability'' = [Num 0]"
    using recalculate_column_metric [OF wf f] e nc by (simp add: metric_values_def)
  have v: "- (33 / 100) * num_at metrics3 0 ''ANA'' + 33 / 100 * num_at metrics3 0 ''DAM''
          - 33 / 100 * num_at metrics3 0 ''DCC'' + 33 / 100 * num_at metrics3 0 ''lcc''
          - 33 / 100 * num_at metrics3 0 ''NOP'' - 33 / 100 * num_at metrics3 0 ''WMC''
          - 33 / 100 * num_at metrics3 0 ''DSC'' = - (99 / 100)"
    by code_simp
  show ?thesis
    using wf n col v by simp
qed



text \<open>
  C8. Recalculation is idempotent on every well-formed table (distinct column names, rows as
  long as the header), so in particular on the tables of the claim, in which every column the
  formulas name is present and numeric: no formula reads a metric column, since no metric
  name can occur in a substituted formula.
\<close>

theorem recalculate_idempotent:
  assumes "wf_table df"
  shows "recalculate_qmood_metrics (recalculate_qmood_metrics df) = recalculate_qmood_metrics df"
proof -
  have "foldl (recalculate_metric (recalculate_qmood_metrics df)) (recalculate_qmood_metrics df)
          QMOOD_FORMULAS = recalculate_qmood_metrics df"
    by (rule foldl_fixed) (rule recalculate_metric_fixed [OF assms])
  then show ?thesis
    by (subst recalculate_qmood_metrics_def) simp
qed

theorem recalculate_idempotent_witness:
  "list_all (numeric_column metrics1)
     [''DCC'', ''lcc'', ''CIS'', ''DSC'', ''DAM'', ''MOA'', ''NOP'', ''ANA'', ''WMC'', ''NOH'', ''MFA'']
   \<and> recalculate_qmood_metrics (recalculate_qmood_metrics metrics1) =
       recalculate_qmood_metrics metrics1"
proof -
  have wf: "wf_table metrics1" by code_simp
  have n: "list_all (numeric_column metrics1)
     [''DCC'', ''lcc'', ''CIS'', ''DSC'', ''DAM'', ''MOA'', ''NOP'', ''ANA'', ''WMC'', ''NOH'', ''MFA'']"
    by code_simp
  show ?thesis
    using recalculate_idempotent [OF wf] n by simp
qed

text \<open>
  C10. Every table returned by the recalculation has the six metric columns; on a
  well-formed table each of them holds the evaluated formula, or on failure the values the
  table had for it, or zeros.
\<close>

theorem all_metric_columns_present:
  "set QMOOD_METRICS \<subseteq> set (columns (recalculate_qmood_metrics df))
   \<and> (wf_table df \<longrightarrow>
        (\<forall>mf \<in> set QMOOD_FORMULAS.
           column (recalculate_qmood_metrics df) (fst mf) =
             (case eval_formula df (snd mf) of
                Some vals \<Rightarrow> vals
              | None \<Rightarrow> if fst mf \<in> set (columns df) then column df (fst mf)
                        else replicate (length (rows df)) (Num 0))))"
proof (intro conjI impI ballI)
  obtain news where "columns (recalculate_qmood_metrics df) = columns df @ news"
    and "set news = set (map fst QMOOD_FORMULAS) - set (columns df)"
    using foldl_recalculate_columns [of df df QMOOD_FORMULAS]
    unfolding recalculate_qmood_metrics_def by blast
  then show "set QMOOD_METRICS \<subseteq> set (columns (recalculate_qmood_metrics df))"
    unfolding metrics_of_formulas by auto
next
  fix mf
  assume a: "wf_table df" "mf \<in> set QMOOD_FORMULAS"
  obtain m f where mf: "mf = (m, f)" by (cases mf)
  show "column (recalculate_qmood_metrics df) (fst mf) =
             (case eval_formula df (snd mf) of
                Some vals \<Rightarrow> vals
              | None \<Rightarrow> if fst mf \<in> set (columns df) then column df (fst mf)
                        else replicate (length (rows df)) (Num 0))"
    using recalculate_column_metric [OF a] unfolding mf
    by (simp add: metric_values_def split: option.splits)
qed

theorem all_metric_columns_present_witness:
  "set QMOOD_METRICS \<subseteq> set (columns (recalculate_qmood_metrics metrics2))
   \<and> column (recalculate_qmood_metrics metrics2) ''Reusability'' = [Num 1, Num 1]
   \<and> column (recalculate_qmood_metrics metrics2) ''Flexibility'' = [Num 7, Num 8]
   \<and> column (recalculate_qmood_metrics metrics2) ''Functionality'' = [Num 0, Num 0]"
proof -
  have wf: "wf_table metrics2" by code_simp
  have f1: "(''Reusability'', ''-0.25 * DCC + 0.25 * lcc + 0.5 * CIS + 0.5 * DSC'') \<in> set QMOOD_FORMULAS"
    and f2: "(''Flexibility'', ''0.25 * DAM - 0.25 * DCC + 0.5 * MOA + 0.5 * NOP'') \<in> set QMOOD_FORMULAS"
    and f3: "(''Functionality'', ''0.12 * lcc + 0.22 * NOP + 0.22 * CIS + 0.22 * DSC + 0.22 * NOH'')
               \<in> set QMOOD_FORMULAS"
    by (simp_all add: QMOOD_FORMULAS_def)
  have e1: "eval_formula metrics2 ''-0.25 * DCC + 0.25 * lcc + 0.5 * CIS + 0.5 * DSC'' = Some [Num 1, Num 1]"
    by code_simp
  have e2: "eval_formula metrics2 ''0.25 * DAM - 0.25 * DCC + 0.5 * MOA + 0.5 * NOP'' = None"
    by code_simp
  have e3: "eval_formula metrics2 ''0.12 * lcc + 0.22 * NOP + 0.22 * CIS + 0.22 * DSC + 0.22 * NOH'' = None"
    by code_simp
  have c2: "''Flexibility'' \<in> set (columns metrics2)" "column metrics2 ''Flexibility'' = [Num 7, Num 8]"
    by code_simp+
  have c3: "''Functionality'' \<notin> set (columns metrics2)" "length (rows metrics2) = 2"
    by code_simp+
  have all: "set QMOOD_METRICS \<subseteq> set (columns (recalculate_qmood_metrics metrics2))"
    and each: "\<forall>mf \<in> set QMOOD_FORMULAS.
           column (recalculate_qmood_metrics metrics2) (fst mf) =
             (case eval_formula metrics2 (snd mf) of
                Some vals \<Rightarrow> vals
              | None \<Rightarrow> if fst mf \<in> set (columns metrics2) then column metrics2 (fst mf)
                        else replicate (length (rows metrics2)) (Num 0))"
    using all_metric_columns_present [of metrics2] wf by blast+
  show ?thesis
    using all each [rule_format, OF f1] each [rule_format, OF f2] each [rule_format, OF f3]
      e1 e2 e3 c2 c3
    by (simp add: numeral_2_eq_2)
qed

end
